theory Spec2Isabelle
  imports Complex_Main
begin

section \<open>LP-IRL (lp_irl.py): a shallow embedding\<close>

text \<open>
  The model follows \<^verbatim>\<open>src/lp_irl.py\<close> line by line. Floating-point numbers are
  idealised as exact reals; the one place where the source can leave the finite numbers
  (the division inside \<^verbatim>\<open>normalize\<close>) is modelled with numpy's division-by-zero
  results. Exceptions of Python and numpy are values of a sum type. The three things
  the source takes from outside are parameters of the model: the contents of the
  uninitialised array returned by \<^verbatim>\<open>np.empty\<close>, \<^verbatim>\<open>np.linalg.inv\<close> and
  \<^verbatim>\<open>scipy.optimize.linprog\<close>.
\<close>

subsection \<open>Exceptions\<close>

datatype error = ValueError | KeyError | IndexError | LinAlgError | AssertionError | TypeError

type_synonym 'a result = "error + 'a"

definition rbind :: "'a result \<Rightarrow> ('a \<Rightarrow> 'b result) \<Rightarrow> 'b result" where
  "rbind m f = (case m of Inl e \<Rightarrow> Inl e | Inr v \<Rightarrow> f v)"

text \<open>A \<^verbatim>\<open>for\<close> loop over a sequence whose body updates the loop state or raises.\<close>

fun for_loop :: "('a \<Rightarrow> 's \<Rightarrow> 's result) \<Rightarrow> 'a list \<Rightarrow> 's \<Rightarrow> 's result" where
  "for_loop body [] s = Inr s"
| "for_loop body (v # vs) s = rbind (body v s) (for_loop body vs)"

text \<open>A loop that fills a fresh container entry per iteration (\<^verbatim>\<open>Tnotpi[i] = ...\<close>).\<close>

fun for_collect :: "('a \<Rightarrow> 'b result) \<Rightarrow> 'a list \<Rightarrow> 'b list result" where
  "for_collect body [] = Inr []"
| "for_collect body (v # vs) =
     rbind (body v) (\<lambda>y. rbind (for_collect body vs) (\<lambda>ys. Inr (y # ys)))"

subsection \<open>Python lists and dicts\<close>

text \<open>\<^verbatim>\<open>xs.index(v)\<close>: the first position of \<open>v\<close>, ValueError when absent.\<close>

fun list_index :: "'a list \<Rightarrow> 'a \<Rightarrow> nat result" where
  "list_index [] v = Inl ValueError"
| "list_index (y # ys) v =
     (if y = v then Inr 0 else rbind (list_index ys v) (\<lambda>i. Inr (Suc i)))"

text \<open>\<^verbatim>\<open>xs.remove(v)\<close>: drops the first occurrence, ValueError when absent.\<close>

definition list_remove :: "'a list \<Rightarrow> 'a \<Rightarrow> 'a list result" where
  "list_remove xs v = (if v \<in> set xs then Inr (remove1 v xs) else Inl ValueError)"

text \<open>\<^verbatim>\<open>xs[i]\<close> and \<^verbatim>\<open>xs[i] = v\<close> for a non-negative index.\<close>

definition list_get :: "'a list \<Rightarrow> nat \<Rightarrow> 'a result" where
  "list_get xs i = (if i < length xs then Inr (xs ! i) else Inl IndexError)"

definition list_set :: "'a list \<Rightarrow> nat \<Rightarrow> 'a \<Rightarrow> 'a list result" where
  "list_set xs i v = (if i < length xs then Inr (xs[i := v]) else Inl IndexError)"

text \<open>\<^verbatim>\<open>d[key]\<close> on a dict.\<close>

definition dict_get :: "('k \<rightharpoonup> 'v) \<Rightarrow> 'k \<Rightarrow> 'v result" where
  "dict_get d key = (case d key of None \<Rightarrow> Inl KeyError | Some v \<Rightarrow> Inr v)"

subsection \<open>Two-dimensional numpy arrays\<close>

text \<open>
  A 2-d array keeps its column count beside its rows, because the source creates arrays
  of shape \<^verbatim>\<open>[0, n]\<close> and later reads \<^verbatim>\<open>A_ub.shape[1]\<close>.
\<close>

record ndarray =
  ncols :: nat
  rows :: "real list list"

definition nrows :: "ndarray \<Rightarrow> nat" where
  "nrows M = length (rows M)"

definition wf_array :: "ndarray \<Rightarrow> bool" where
  "wf_array M = list_all (\<lambda>r. length r = ncols M) (rows M)"

definition np_zeros :: "nat \<Rightarrow> nat \<Rightarrow> ndarray" where
  "np_zeros r c = \<lparr>ncols = c, rows = replicate r (replicate c 0)\<rparr>"

definition np_identity :: "nat \<Rightarrow> ndarray" where
  "np_identity n =
     \<lparr>ncols = n, rows = map (\<lambda>i. map (\<lambda>j. if i = j then 1 else 0) [0..<n]) [0..<n]\<rparr>"

text \<open>\<^verbatim>\<open>M[i, j]\<close> and \<^verbatim>\<open>M[i, j] = v\<close>, IndexError out of bounds.\<close>

definition getitem :: "ndarray \<Rightarrow> nat \<Rightarrow> nat \<Rightarrow> real result" where
  "getitem M i j =
     (if i < nrows M \<and> j < ncols M then Inr (rows M ! i ! j) else Inl IndexError)"

definition setitem :: "ndarray \<Rightarrow> nat \<Rightarrow> nat \<Rightarrow> real \<Rightarrow> ndarray result" where
  "setitem M i j v =
     (if i < nrows M \<and> j < ncols M
      then Inr (M\<lparr>rows := (rows M)[i := (rows M ! i)[j := v]]\<rparr>)
      else Inl IndexError)"

text \<open>\<^verbatim>\<open>a * M\<close> for a scalar \<open>a\<close>.\<close>

definition smult :: "real \<Rightarrow> ndarray \<Rightarrow> ndarray" where
  "smult a M = M\<lparr>rows := map (map (\<lambda>v. a * v)) (rows M)\<rparr>"

text \<open>
  \<^verbatim>\<open>M - N\<close>. The source only subtracts arrays it has allocated with the same shape
  \<^verbatim>\<open>[n, n]\<close>, so broadcasting never applies; other shapes are an error here.
\<close>

definition mat_sub :: "ndarray \<Rightarrow> ndarray \<Rightarrow> ndarray result" where
  "mat_sub M N =
     (if nrows M = nrows N \<and> ncols M = ncols N
      then Inr \<lparr>ncols = ncols M, rows = map2 (map2 (-)) (rows M) (rows N)\<rparr>
      else Inl ValueError)"

definition dot :: "real list \<Rightarrow> real list \<Rightarrow> real" where
  "dot u v = sum_list (map2 (*) u v)"

definition col :: "ndarray \<Rightarrow> nat \<Rightarrow> real list" where
  "col M j = map (\<lambda>r. r ! j) (rows M)"

text \<open>\<^verbatim>\<open>M @ N\<close>, ValueError when the inner dimensions differ.\<close>

definition matmul :: "ndarray \<Rightarrow> ndarray \<Rightarrow> ndarray result" where
  "matmul M N =
     (if ncols M = nrows N
      then Inr \<lparr>ncols = ncols N,
                rows = map (\<lambda>r. map (\<lambda>j. dot r (col N j)) [0..<ncols N]) (rows M)\<rparr>
      else Inl ValueError)"


text \<open>\<^verbatim>\<open>np.vstack((M, N))\<close> and \<^verbatim>\<open>np.hstack((M, N))\<close>.\<close>

definition vstack :: "ndarray \<Rightarrow> ndarray \<Rightarrow> ndarray result" where
  "vstack M N =
     (if ncols M = ncols N then Inr \<lparr>ncols = ncols M, rows = rows M @ rows N\<rparr>
      else Inl ValueError)"

definition hstack :: "ndarray \<Rightarrow> ndarray \<Rightarrow> ndarray result" where
  "hstack M N =
     (if nrows M = nrows N
      then Inr \<lparr>ncols = ncols M + ncols N, rows = map2 (@) (rows M) (rows N)\<rparr>
      else Inl ValueError)"

text \<open>A Python list used as one row (\<^verbatim>\<open>np.vstack((A_ub, constraint_row))\<close>).\<close>

definition row_array :: "real list \<Rightarrow> ndarray" where
  "row_array r = \<lparr>ncols = length r, rows = [r]\<rparr>"

subsection \<open>Division that can leave the finite floats\<close>

datatype npfloat = Fin real | PInf | NInf | NaN

text \<open>numpy's true division of finite numbers: a warning, never an exception.\<close>

definition np_div :: "real \<Rightarrow> real \<Rightarrow> npfloat" where
  "np_div a b =
     (if b \<noteq> 0 then Fin (a / b)
      else if a = 0 then NaN
      else if 0 < a then PInf else NInf)"

text \<open>\<^verbatim>\<open>Rmax * v\<close> for a finite scalar.\<close>

fun np_scale :: "real \<Rightarrow> npfloat \<Rightarrow> npfloat" where
  "np_scale a (Fin r) = Fin (a * r)"
| "np_scale a NaN = NaN"
| "np_scale a PInf = (if 0 < a then PInf else if a < 0 then NInf else NaN)"
| "np_scale a NInf = (if 0 < a then NInf else if a < 0 then PInf else NaN)"

text \<open>\<^verbatim>\<open>np.min\<close> and \<^verbatim>\<open>np.max\<close> raise ValueError on an empty array.\<close>

fun np_min :: "real list \<Rightarrow> real result" where
  "np_min [] = Inl ValueError"
| "np_min (v # vs) = Inr (fold min vs v)"

fun np_max :: "real list \<Rightarrow> real result" where
  "np_max [] = Inl ValueError"
| "np_max (v # vs) = Inr (fold max vs v)"

subsection \<open>The body of lp_irl\<close>

type_synonym state = string
type_synonym action = string

text \<open>The triple \<^verbatim>\<open>(c, A_ub, b_ub)\<close>: \<open>c\<close> is the single row of a 1-by-m array and
  \<open>b_ub\<close> the single column of an r-by-1 array.\<close>

type_synonym lp = "real list \<times> ndarray \<times> real list"

text \<open>\<^verbatim>\<open>trans = lambda s1, a, s2: T[si(s1) * k + ai(a), si(s2)]\<close>\<close>

definition trans_fn ::
  "state list \<Rightarrow> action list \<Rightarrow> ndarray \<Rightarrow> state \<Rightarrow> action \<Rightarrow> state \<Rightarrow> real result" where
  "trans_fn S A T s1 a s2 =
     rbind (list_index S s1) (\<lambda>i1.
     rbind (list_index A a) (\<lambda>j.
     rbind (list_index S s2) (\<lambda>i2.
       getitem T (i1 * length A + j) i2)))"

text \<open>\<^verbatim>\<open>def trans_mat(pi)\<close>: \<open>pol\<close> is the policy lambda.\<close>

definition trans_mat ::
  "state list \<Rightarrow> action list \<Rightarrow> ndarray \<Rightarrow> (state \<Rightarrow> action result) \<Rightarrow> ndarray result" where
  "trans_mat S A T pol =
     for_loop (\<lambda>from_state.
       for_loop (\<lambda>to_state M.
         rbind (pol from_state) (\<lambda>a.
         rbind (trans_fn S A T from_state a to_state) (\<lambda>t.
         rbind (list_index S from_state) (\<lambda>i.
         rbind (list_index S to_state) (\<lambda>j.
           setitem M i j t))))) S)
       S (np_zeros (length S) (length S))"

text \<open>One pass of the loop that fills \<^verbatim>\<open>Tnotpi[i]\<close>.\<close>

definition Tnotpi_entry ::
  "state list \<Rightarrow> action list \<Rightarrow> ndarray \<Rightarrow> (state \<rightharpoonup> action) \<Rightarrow> nat \<Rightarrow> ndarray result" where
  "Tnotpi_entry S A T policy i =
     for_loop (\<lambda>from_state M.
       rbind (dict_get policy from_state) (\<lambda>p.
       rbind (list_remove A p) (\<lambda>Atmp.
       rbind (list_get Atmp i) (\<lambda>non_policy_action.
         for_loop (\<lambda>to_state M.
           rbind (trans_fn S A T from_state non_policy_action to_state) (\<lambda>t.
           rbind (list_index S from_state) (\<lambda>i1.
           rbind (list_index S to_state) (\<lambda>i2.
             setitem M i1 i2 t)))) S M))))
       S (np_zeros (length S) (length S))"

text \<open>The dict \<^verbatim>\<open>Tnotpi\<close> has the keys \<open>0..k-2\<close>, in order: a list.\<close>

definition build_Tnotpi ::
  "state list \<Rightarrow> action list \<Rightarrow> ndarray \<Rightarrow> (state \<rightharpoonup> action) \<Rightarrow> ndarray list result" where
  "build_Tnotpi S A T policy = for_collect (Tnotpi_entry S A T policy) [0..<length A - 1]"

text \<open>\<^verbatim>\<open>constraint_rows = -1 * (Tpi - Tnotpi[i]) @ T_disc_inv\<close>
  (\<^verbatim>\<open>*\<close> and \<^verbatim>\<open>@\<close> associate to the left).\<close>

definition constraint_block ::
  "ndarray \<Rightarrow> ndarray list \<Rightarrow> ndarray \<Rightarrow> nat \<Rightarrow> ndarray result" where
  "constraint_block Tpi Tnotpi T_disc_inv i =
     rbind (list_get Tnotpi i) (\<lambda>Tn.
     rbind (mat_sub Tpi Tn) (\<lambda>D.
       matmul (smult (- 1) D) T_disc_inv))"

definition add_optimal_policy_constraints ::
  "nat \<Rightarrow> ndarray \<Rightarrow> ndarray list \<Rightarrow> ndarray \<Rightarrow> lp \<Rightarrow> lp result" where
  "add_optimal_policy_constraints k Tpi Tnotpi T_disc_inv =
     for_loop (\<lambda>i (c, A_ub, b_ub).
       rbind (constraint_block Tpi Tnotpi T_disc_inv i) (\<lambda>constraint_rows.
       rbind (vstack A_ub constraint_rows) (\<lambda>A_ub'.
         Inr (c, A_ub', b_ub @ replicate (nrows constraint_rows) 0))))
       [0..<k - 1]"

definition add_costly_single_step_constraints ::
  "nat \<Rightarrow> nat \<Rightarrow> ndarray \<Rightarrow> ndarray list \<Rightarrow> ndarray \<Rightarrow> lp \<Rightarrow> lp result" where
  "add_costly_single_step_constraints n k Tpi Tnotpi T_disc_inv = (\<lambda>(c, A_ub, b_ub).
     let c = c @ replicate n (- 1);
         css_offset = length c - n
     in
     rbind (hstack A_ub (np_zeros (nrows A_ub) n)) (\<lambda>A_ub.
       for_loop (\<lambda>i (c, A_ub, b_ub).
         rbind (constraint_block Tpi Tnotpi T_disc_inv i) (\<lambda>constraint_rows.
         let min_operator_entries = np_identity n in
         if css_offset < n then Inl ValueError
         else
           let num_padding_cols = css_offset - n;
               padding_entries = np_zeros (nrows constraint_rows) num_padding_cols
           in
           rbind (hstack constraint_rows padding_entries) (\<lambda>cp.
           rbind (hstack cp min_operator_entries) (\<lambda>constraint_rows.
           rbind (vstack A_ub constraint_rows) (\<lambda>A_ub'.
             Inr (c, A_ub', b_ub @ replicate (nrows constraint_rows) 0))))))
         [0..<k - 1] (c, A_ub, b_ub)))"

definition add_rmax_constraints :: "nat \<Rightarrow> real \<Rightarrow> lp \<Rightarrow> lp result" where
  "add_rmax_constraints n Rmax =
     for_loop (\<lambda>i (c, A_ub, b_ub).
       rbind (list_set (replicate (ncols A_ub) 0) i 1) (\<lambda>constraint_row.
       rbind (vstack A_ub (row_array constraint_row)) (\<lambda>A_ub'.
         Inr (c, A_ub', b_ub @ [Rmax]))))
       [0..<n]"

definition add_l1norm_constraints :: "nat \<Rightarrow> real \<Rightarrow> lp \<Rightarrow> lp result" where
  "add_l1norm_constraints n l1 = (\<lambda>(c, A_ub, b_ub).
     let c = c @ replicate n l1;
         l1_offset = length c - n
     in
     rbind (hstack A_ub (np_zeros (nrows A_ub) n)) (\<lambda>A_ub.
       for_loop (\<lambda>i (c, A_ub, b_ub).
         rbind (list_set (replicate (ncols A_ub) 0) i (- 1)) (\<lambda>constraint_row_1.
         rbind (vstack A_ub (row_array constraint_row_1)) (\<lambda>A_ub1.
         let b_ub1 = b_ub @ [0] in
         rbind (list_set (replicate (ncols A_ub1) 0) i 1) (\<lambda>row2.
         rbind (list_set row2 (l1_offset + i) (- 1)) (\<lambda>constraint_row_2.
         rbind (vstack A_ub1 (row_array constraint_row_2)) (\<lambda>A_ub2.
           Inr (c, A_ub2, b_ub1 @ [0])))))))
         [0..<n] (c, A_ub, b_ub)))"

text \<open>
  Lines 20 to 186: the matrices and the composed LP. \<open>mem\<close> gives the contents of the
  array \<^verbatim>\<open>np.empty(shape=[1, n])\<close>, which numpy does not initialise; \<open>np_inv\<close> is
  \<^verbatim>\<open>np.linalg.inv\<close>.
\<close>

definition lp_problem ::
  "(nat \<Rightarrow> real) \<Rightarrow> (ndarray \<Rightarrow> ndarray result) \<Rightarrow>
   state list \<Rightarrow> action list \<Rightarrow> ndarray \<Rightarrow> real \<Rightarrow> (state \<rightharpoonup> action) \<Rightarrow> real \<Rightarrow> real \<Rightarrow>
   lp result" where
  "lp_problem mem np_inv S A T gamma policy l1 Rmax =
     (let n = length S; k = length A in
      rbind (trans_mat S A T (dict_get policy)) (\<lambda>Tpi.
      rbind (build_Tnotpi S A T policy) (\<lambda>Tnotpi.
      rbind (mat_sub (np_identity n) (smult gamma Tpi)) (\<lambda>M.
      rbind (np_inv M) (\<lambda>T_disc_inv.
      let c = map mem [0..<n];
          A_ub = \<lparr>ncols = n, rows = []\<rparr>;
          b_ub = []
      in
      rbind (add_optimal_policy_constraints k Tpi Tnotpi T_disc_inv (c, A_ub, b_ub)) (\<lambda>p1.
      rbind (add_costly_single_step_constraints n k Tpi Tnotpi T_disc_inv p1) (\<lambda>p2.
      rbind (add_rmax_constraints n Rmax p2) (\<lambda>p3.
        add_l1norm_constraints n l1 p3))))))))"

text \<open>The result object of \<^verbatim>\<open>linprog\<close>: the fields the source or its caller can read.\<close>

record lpres =
  res_x :: "real list"
  res_status :: nat
  res_success :: bool

text \<open>\<^verbatim>\<open>def normalize(vals)\<close>\<close>

definition normalize :: "real list \<Rightarrow> npfloat list result" where
  "normalize vals =
     rbind (np_min vals) (\<lambda>min_val.
     rbind (np_max vals) (\<lambda>max_val.
       Inr (map (\<lambda>v. np_div (v - min_val) (max_val - min_val)) vals)))"

text \<open>\<^verbatim>\<open>rewards = Rmax * normalize(res['x'][0:n])\<close>\<close>

definition extract_rewards :: "nat \<Rightarrow> real \<Rightarrow> real list \<Rightarrow> npfloat list result" where
  "extract_rewards n Rmax xs =
     rbind (normalize (take n xs)) (\<lambda>vals. Inr (map (np_scale Rmax) vals))"


subsection \<open>Solving the Bellman equation (markov_reward_process.py)\<close>


subsection \<open>The same function on an explicit store\<close>

text \<open>
  The functions above pass values. To speak about which objects a call writes, the same
  statements are given once more over a store: every statement that builds an object
  allocates it, every in-place assignment (\<^verbatim>\<open>X[i, j] = t\<close>, \<^verbatim>\<open>Atmp.remove(...)\<close>,
  \<^verbatim>\<open>row[i] = v\<close>) updates the object at its address, and names are bound to addresses.
  The temporaries inside one expression get no address of their own.
\<close>

text \<open>
  The objects a call of \<^verbatim>\<open>lp_irl\<close> can reach: string arrays (\<open>S\<close>, \<open>A\<close>), float arrays,
  float vectors (\<open>c\<close>, \<open>b_ub\<close>, the sliced solution), Python lists of strings
  (\<^verbatim>\<open>tolist()\<close>) and of numbers (the constraint rows), the policy dict, the solver's
  result object and the reward vector.
\<close>

datatype obj =
    StrArr "string list"
  | Arr ndarray
  | Vec "real list"
  | StrList "string list"
  | NumList "real list"
  | Dict "state \<rightharpoonup> action"
  | Res lpres
  | NpVec "npfloat list"


type_synonym heap = "obj list"

type_synonym 'a hm = "heap \<Rightarrow> ('a \<times> heap) result"




































text \<open>
  \<open>frame base h h'\<close>: the store \<open>h'\<close> extends \<open>h\<close> and agrees with it on the first \<open>base\<close>
  addresses. \<open>triple base m Q\<close>: started in a store with at least \<open>base\<close> objects, a
  run of \<open>m\<close> that returns leaves the first \<open>base\<close> objects as they were, and its result
  satisfies \<open>Q\<close>.
\<close>

definition frame :: "nat \<Rightarrow> heap \<Rightarrow> heap \<Rightarrow> bool" where
  "frame base h h' \<longleftrightarrow> length h \<le> length h' \<and> take base h' = take base h"

definition triple :: "nat \<Rightarrow> 'a hm \<Rightarrow> ('a \<Rightarrow> bool) \<Rightarrow> bool" where
  "triple base m Q \<longleftrightarrow>
     (\<forall>h v h'. base \<le> length h \<longrightarrow> m h = Inr (v, h') \<longrightarrow> frame base h h' \<and> Q v)"


subsection \<open>Inputs\<close>

text \<open>The position of the first occurrence of \<open>v\<close>, as a total function; it agrees
  with \<open>list_index\<close> whenever \<open>v\<close> occurs.\<close>

fun first_index :: "'a list \<Rightarrow> 'a \<Rightarrow> nat" where
  "first_index [] v = 0"
| "first_index (y # ys) v = (if y = v then 0 else Suc (first_index ys v))"

text \<open>The shape of the inputs: distinct states, distinct actions, a transition array with
  one row of \<open>n\<close> entries for each (state, action) pair, and a policy that gives every state an
  action of the action set.\<close>

definition well_shaped ::
  "state list \<Rightarrow> action list \<Rightarrow> ndarray \<Rightarrow> (state \<rightharpoonup> action) \<Rightarrow> bool" where
  "well_shaped S A T policy \<longleftrightarrow>
     distinct S \<and> distinct A \<and>
     ncols T = length S \<and> nrows T = length S * length A \<and> wf_array T \<and>
     list_all (\<lambda>s. case policy s of None \<Rightarrow> False | Some a \<Rightarrow> a \<in> set A) S"



subsection \<open>The matrices and the linear program as the specification describes them\<close>

text \<open>
  These definitions follow the words of the specification (sections 3 and 4.4), entry by
  entry; the properties below compare them with what the functions of the source return.
\<close>

text \<open>\<open>M[i, j]\<close> without the bounds check.\<close>

definition entry :: "ndarray \<Rightarrow> nat \<Rightarrow> nat \<Rightarrow> real" where
  "entry M i j = rows M ! i ! j"

text \<open>An \<open>n\<close>-by-\<open>n\<close> array all of whose rows have \<open>n\<close> entries.\<close>

definition square :: "nat \<Rightarrow> ndarray \<Rightarrow> bool" where
  "square n M \<longleftrightarrow> nrows M = n \<and> ncols M = n \<and> wf_array M"

text \<open>Row \<open>i\<close> of \<open>Tpi\<close>: the distribution \<open>P(. | s_i, pi(s_i))\<close>, which is row
  \<open>i * k + j\<close> of \<open>T\<close> for the index \<open>j\<close> of the policy's action.\<close>

definition policy_row ::
  "state list \<Rightarrow> action list \<Rightarrow> ndarray \<Rightarrow> (state \<rightharpoonup> action) \<Rightarrow> nat \<Rightarrow> real list" where
  "policy_row S A T policy i =
     rows T ! (i * length A + first_index A (the (policy (S ! i))))"

text \<open>Row \<open>i\<close> of \<open>Tnotpi[idx]\<close>: the distribution for the \<open>idx\<close>-th entry of the action
  list with the policy's action at \<open>s_i\<close> removed, relative order kept.\<close>

definition deviation_row ::
  "state list \<Rightarrow> action list \<Rightarrow> ndarray \<Rightarrow> (state \<rightharpoonup> action) \<Rightarrow> nat \<Rightarrow> nat \<Rightarrow> real list" where
  "deviation_row S A T policy idx i =
     rows T ! (i * length A + first_index A (remove1 (the (policy (S ! i))) A ! idx))"

definition spec_Tpi ::
  "state list \<Rightarrow> action list \<Rightarrow> ndarray \<Rightarrow> (state \<rightharpoonup> action) \<Rightarrow> ndarray" where
  "spec_Tpi S A T policy =
     \<lparr>ncols = length S, rows = map (policy_row S A T policy) [0..<length S]\<rparr>"

definition spec_Tnotpi ::
  "state list \<Rightarrow> action list \<Rightarrow> ndarray \<Rightarrow> (state \<rightharpoonup> action) \<Rightarrow> nat \<Rightarrow> ndarray" where
  "spec_Tnotpi S A T policy idx =
     \<lparr>ncols = length S, rows = map (deviation_row S A T policy idx) [0..<length S]\<rparr>"

text \<open>\<open>I - gamma * Tpi\<close>.\<close>

definition discount_matrix :: "nat \<Rightarrow> real \<Rightarrow> ndarray \<Rightarrow> ndarray" where
  "discount_matrix n gamma Tpi =
     \<lparr>ncols = n,
        rows = map (\<lambda>i. map (\<lambda>j. (if i = j then 1 else 0) - gamma * entry Tpi i j) [0..<n])
                 [0..<n]\<rparr>"

text \<open>The block \<open>-(Tpi - Tn) @ Tinv\<close>, entry by entry.\<close>

definition spec_block :: "nat \<Rightarrow> ndarray \<Rightarrow> ndarray \<Rightarrow> ndarray \<Rightarrow> real list list" where
  "spec_block n Tpi Tn Tinv =
     map (\<lambda>i. map (\<lambda>j. - sum_list (map (\<lambda>l. (entry Tpi i l - entry Tn i l) * entry Tinv l j) [0..<n]))
                 [0..<n]) [0..<n]"

text \<open>Row \<open>i\<close> of the \<open>m\<close>-by-\<open>m\<close> identity.\<close>

definition unit_row :: "nat \<Rightarrow> nat \<Rightarrow> real list" where
  "unit_row m i = map (\<lambda>j. if i = j then 1 else 0) [0..<m]"

text \<open>Every row extended by \<open>n\<close> zero columns.\<close>

definition pad :: "nat \<Rightarrow> real list list \<Rightarrow> real list list" where
  "pad n rs = map (\<lambda>r. r @ replicate n 0) rs"

text \<open>An \<open>n\<close>-row block followed, row by row, by the identity.\<close>

definition margin_rows :: "nat \<Rightarrow> real list list \<Rightarrow> real list list" where
  "margin_rows n blk = map (\<lambda>i. blk ! i @ unit_row n i) [0..<n]"

text \<open>The rows of stages 3 and 4: \<open>R_i \<le> Rmax\<close>, \<open>-R_i \<le> 0\<close> and \<open>R_i - z \<le> 0\<close>
  with \<open>z\<close> in column \<open>j\<close>.\<close>

definition bound_row :: "nat \<Rightarrow> nat \<Rightarrow> real list" where
  "bound_row m i = (replicate m 0)[i := 1]"

definition neg_row :: "nat \<Rightarrow> nat \<Rightarrow> real list" where
  "neg_row m i = (replicate m 0)[i := - 1]"

definition abs_row :: "nat \<Rightarrow> nat \<Rightarrow> nat \<Rightarrow> real list" where
  "abs_row m i j = (replicate m 0)[i := 1, j := - 1]"

text \<open>The rows each stage contributes, stage 1 and 2 once per deviation index.\<close>

definition stage1_rows :: "nat \<Rightarrow> nat \<Rightarrow> ndarray \<Rightarrow> ndarray list \<Rightarrow> ndarray \<Rightarrow> real list list" where
  "stage1_rows n k Tpi Tnotpi Tinv =
     concat (map (\<lambda>idx. spec_block n Tpi (Tnotpi ! idx) Tinv) [0..<k - 1])"

definition stage2_rows :: "nat \<Rightarrow> nat \<Rightarrow> ndarray \<Rightarrow> ndarray list \<Rightarrow> ndarray \<Rightarrow> real list list" where
  "stage2_rows n k Tpi Tnotpi Tinv =
     concat (map (\<lambda>idx. margin_rows n (spec_block n Tpi (Tnotpi ! idx) Tinv)) [0..<k - 1])"

definition stage3_rows :: "nat \<Rightarrow> real list list" where
  "stage3_rows n = map (bound_row (n + n)) [0..<n]"

definition stage4_rows :: "nat \<Rightarrow> real list list" where
  "stage4_rows n =
     concat (map (\<lambda>i. [neg_row (n + n + n) i, abs_row (n + n + n) i (n + n + i)]) [0..<n])"

text \<open>The assembled system: columns \<open>0..n-1\<close> are the rewards, \<open>n..2n-1\<close> the margins and
  \<open>2n..3n-1\<close> the absolute-value surrogates.\<close>

definition spec_A_ub :: "nat \<Rightarrow> nat \<Rightarrow> ndarray \<Rightarrow> ndarray list \<Rightarrow> ndarray \<Rightarrow> ndarray" where
  "spec_A_ub n k Tpi Tnotpi Tinv =
     \<lparr>ncols = n + n + n,
        rows = pad n (pad n (stage1_rows n k Tpi Tnotpi Tinv) @
                      stage2_rows n k Tpi Tnotpi Tinv @ stage3_rows n) @
               stage4_rows n\<rparr>"

definition spec_b_ub :: "nat \<Rightarrow> nat \<Rightarrow> real \<Rightarrow> real list" where
  "spec_b_ub n k Rmax =
     replicate ((k - 1) * n) 0 @ replicate ((k - 1) * n) 0 @ replicate n Rmax @
     replicate (2 * n) 0"

text \<open>The objective: the first \<open>n\<close> coefficients are what \<^verbatim>\<open>np.empty\<close> left there.\<close>

definition spec_c :: "(nat \<Rightarrow> real) \<Rightarrow> nat \<Rightarrow> real \<Rightarrow> real list" where
  "spec_c mem n l1 = map mem [0..<n] @ replicate n (- 1) @ replicate n l1"

subsection \<open>Feasible points, advantages and the round-trip check\<close>

text \<open>\<open>A_ub x \<le> b_ub\<close>, row by row, for a point with one entry per column.\<close>

definition feasible :: "ndarray \<Rightarrow> real list \<Rightarrow> real list \<Rightarrow> bool" where
  "feasible A_ub b_ub x \<longleftrightarrow>
     length x = ncols A_ub \<and> list_all2 (\<lambda>r bi. dot r x \<le> bi) (rows A_ub) b_ub"

text \<open>\<open>((Tpi - Tn) @ Tinv @ x[0:n])_i\<close>: the advantage, at state \<open>i\<close>, of the policy's action
  over the deviation when \<open>x[0:n]\<close> is the reward.\<close>

definition advantage :: "nat \<Rightarrow> ndarray \<Rightarrow> ndarray \<Rightarrow> ndarray \<Rightarrow> real list \<Rightarrow> nat \<Rightarrow> real" where
  "advantage n Tpi Tn Tinv x i =
     sum_list (map (\<lambda>l. (entry Tpi i l - entry Tn i l) *
                         sum_list (map (\<lambda>j. entry Tinv l j * x ! j) [0..<n])) [0..<n])"

text \<open>All entries of a vector are the same number (the degenerate solver output).\<close>

definition all_equal :: "real list \<Rightarrow> bool" where
  "all_equal vs = list_all (\<lambda>v. v = hd vs) vs"


text \<open>The entries of a float vector when all of them are finite. A comparison that
  involves NaN is false, so a vector with a NaN entry passes no check.\<close>

definition finite_values :: "npfloat list \<Rightarrow> real list option" where
  "finite_values vs =
     (if list_all (\<lambda>v. case v of Fin r \<Rightarrow> True | _ \<Rightarrow> False) vs
      then Some (map (\<lambda>v. case v of Fin r \<Rightarrow> r | _ \<Rightarrow> 0) vs)
      else None)"


subsection \<open>The demo of the source and stand-ins for the external libraries\<close>

text \<open>The input of the \<^verbatim>\<open>__main__\<close> block of \<^verbatim>\<open>lp_irl.py\<close> (the two-state problem).\<close>

definition demo_S :: "state list" where "demo_S = [''s0'', ''s1'']"

definition demo_A :: "action list" where "demo_A = [''b'', ''o'']"

definition demo_T :: ndarray where
  "demo_T = \<lparr>ncols = 2, rows = [[2/5, 3/5], [9/10, 1/10], [1, 0], [1, 0]]\<rparr>"

definition demo_pi :: "state \<rightharpoonup> action" where
  "demo_pi = [''s0'' \<mapsto> ''b'', ''s1'' \<mapsto> ''o'']"


text \<open>The inverse of a 2-by-2 array in closed form, LinAlgError for a singular one: what
  \<^verbatim>\<open>np.linalg.inv\<close> computes on the demo input.\<close>

definition inv2 :: "ndarray \<Rightarrow> ndarray result" where
  "inv2 M =
     (case rows M of
        [[a, b], [c, d]] \<Rightarrow>
          if a * d - b * c = 0 then Inl LinAlgError
          else Inr \<lparr>ncols = 2,
                    rows = [[d / (a * d - b * c), - b / (a * d - b * c)],
                            [- c / (a * d - b * c), a / (a * d - b * c)]]\<rparr>
      | _ \<Rightarrow> Inl LinAlgError)"

text \<open>The resolvent \<open>(I - 0.9 * Tpi)^-1\<close> of the demo.\<close>

definition demo_Tinv :: ndarray where
  "demo_Tinv = \<lparr>ncols = 2, rows = [[500/77, 270/77], [450/77, 320/77]]\<rparr>"



section \<open>Properties\<close>

subsection \<open>Reward extraction\<close>

lemma np_min_Min: "vs \<noteq> [] \<Longrightarrow> np_min vs = Inr (Min (set vs))"
proof (cases vs)
  case (Cons a list)
  then show ?thesis using Min.set_eq_fold[of a list] by simp
qed simp

lemma np_max_Max: "vs \<noteq> [] \<Longrightarrow> np_max vs = Inr (Max (set vs))"
proof (cases vs)
  case (Cons a list)
  then show ?thesis using Max.set_eq_fold[of a list] by simp
qed simp

lemma normalize_nonempty:
  "vs \<noteq> [] \<Longrightarrow>
   normalize vs = Inr (map (\<lambda>v. np_div (v - Min (set vs)) (Max (set vs) - Min (set vs))) vs)"
  by (simp add: normalize_def rbind_def np_min_Min np_max_Max)

lemma all_equal_iff: "vs \<noteq> [] \<Longrightarrow> all_equal vs \<longleftrightarrow> Min (set vs) = Max (set vs)"
proof
  assume ne: "vs \<noteq> []" and ae: "all_equal vs"
  then have "set vs = {hd vs}"
    by (cases vs) (auto simp: all_equal_def list_all_iff)
  then show "Min (set vs) = Max (set vs)" by simp
next
  assume ne: "vs \<noteq> []" and eq: "Min (set vs) = Max (set vs)"
  have "v = hd vs" if "v \<in> set vs" for v
  proof -
    have "Min (set vs) \<le> v" "v \<le> Max (set vs)" using that by simp_all
    moreover have "Min (set vs) \<le> hd vs" "hd vs \<le> Max (set vs)" using ne by simp_all
    ultimately show ?thesis using eq by linarith
  qed
  then show "all_equal vs" by (simp add: all_equal_def list_all_iff)
qed

lemma not_all_equal_nonempty: "\<not> all_equal vs \<Longrightarrow> vs \<noteq> []"
  by (auto simp: all_equal_def)

lemma not_all_equal_lt:
  assumes "\<not> all_equal vs"
  shows "Min (set vs) < Max (set vs)"
proof -
  have ne: "vs \<noteq> []" using assms by (rule not_all_equal_nonempty)
  then have "Min (set vs) \<le> Max (set vs)" by simp
  moreover have "Min (set vs) \<noteq> Max (set vs)" using assms all_equal_iff[OF ne] by simp
  ultimately show ?thesis by simp
qed

lemma extract_rewards_nondegenerate:
  assumes "\<not> all_equal (take n xs)"
  shows "extract_rewards n Rmax xs =
    Inr (map (\<lambda>v. Fin (Rmax * ((v - Min (set (take n xs))) /
                               (Max (set (take n xs)) - Min (set (take n xs))))))
          (take n xs))"
proof -
  have ne: "take n xs \<noteq> []" using assms by (rule not_all_equal_nonempty)
  have lt: "Min (set (take n xs)) < Max (set (take n xs))" using assms by (rule not_all_equal_lt)
  show ?thesis
    using lt by (simp add: extract_rewards_def normalize_nonempty[OF ne] rbind_def np_div_def o_def)
qed

text \<open>
  Claim C6. Reward extraction reads the first \<open>n\<close> entries of the solution and returns
  \<open>Rmax * (x_i - min) / (max - min)\<close> for each of them. When these entries are not all
  equal (and \<open>Rmax\<close> is not negative), every returned entry is a finite number in
  \<open>[0, Rmax]\<close>, the smallest returned entry is exactly \<open>0\<close> and the largest is exactly
  \<open>Rmax\<close>.
\<close>

theorem extract_rewards_range:
  assumes "\<not> all_equal (take n xs)" and "0 \<le> Rmax"
  shows "\<exists>rs. extract_rewards n Rmax xs = Inr (map Fin rs) \<and>
     rs = map (\<lambda>v. Rmax * (v - Min (set (take n xs))) /
                     (Max (set (take n xs)) - Min (set (take n xs)))) (take n xs) \<and>
     (\<forall>r \<in> set rs. 0 \<le> r \<and> r \<le> Rmax) \<and> Min (set rs) = 0 \<and> Max (set rs) = Rmax"
proof -
  define vs where "vs = take n xs"
  define lo where "lo = Min (set vs)"
  define hi where "hi = Max (set vs)"
  define rs where "rs = map (\<lambda>v. Rmax * (v - lo) / (hi - lo)) vs"
  have ne: "vs \<noteq> []" using assms(1) unfolding vs_def by (rule not_all_equal_nonempty)
  have lt: "lo < hi" using assms(1) unfolding vs_def lo_def hi_def by (rule not_all_equal_lt)
  have ex: "extract_rewards n Rmax xs = Inr (map Fin rs)"
    using extract_rewards_nondegenerate[OF assms(1)]
    by (simp add: rs_def vs_def lo_def hi_def o_def)
  have bounds: "lo \<le> v \<and> v \<le> hi" if "v \<in> set vs" for v
    using that by (simp add: lo_def hi_def)
  have range: "0 \<le> r \<and> r \<le> Rmax" if r_in: "r \<in> set rs" for r
  proof -
    obtain v where v: "v \<in> set vs" "r = Rmax * (v - lo) / (hi - lo)"
      using r_in by (auto simp: rs_def)
    have q: "0 \<le> (v - lo) / (hi - lo)" "(v - lo) / (hi - lo) \<le> 1"
      using bounds[OF v(1)] lt by (simp_all add: divide_le_eq)
    have "0 \<le> Rmax * ((v - lo) / (hi - lo))"
      using assms(2) q(1) by (rule mult_nonneg_nonneg)
    moreover have "Rmax * ((v - lo) / (hi - lo)) \<le> Rmax * 1"
      using q(2) assms(2) by (rule mult_left_mono)
    ultimately show ?thesis using v(2) by simp
  qed
  have lo_in: "lo \<in> set vs" and hi_in: "hi \<in> set vs"
    using ne by (simp_all add: lo_def hi_def)
  have "0 \<in> set rs" using lo_in by (force simp: rs_def)
  then have min0: "Min (set rs) = 0" using range by (intro Min_eqI) auto
  have "Rmax \<in> set rs" using hi_in lt by (force simp: rs_def)
  then have maxR: "Max (set rs) = Rmax" using range by (intro Max_eqI) auto
  show ?thesis
    using ex range min0 maxR unfolding rs_def vs_def lo_def hi_def by blast
qed

theorem extract_rewards_range_witness:
  "\<not> all_equal (take 2 [1, 3, 4]) \<and> (0::real) \<le> 2 \<and>
   extract_rewards 2 2 [1, 3, 4] = Inr [Fin 0, Fin 2]"
  using extract_rewards_range[of 2 "[1, 3, 4]" 2]
  by (simp add: all_equal_def)

text \<open>
  Claim C7, as stated, fails: when the first \<open>n\<close> entries of the solution are all equal
  the source raises nothing. \<^verbatim>\<open>normalize\<close> divides \<open>0\<close> by \<open>0\<close> entrywise, which
  numpy evaluates to NaN, and the NaN vector is returned.
\<close>

theorem extract_rewards_constant_counterexample:
  "extract_rewards 2 2 [1, 1, 5] = Inr [NaN, NaN]"
  by (simp add: extract_rewards_def normalize_def rbind_def np_div_def)

text \<open>
  Claim C7, amended. When the first \<open>n\<close> entries of the solution (at least one entry)
  are all equal, reward extraction raises no error: it returns a vector of the same
  length with NaN in every position.
\<close>

theorem extract_rewards_constant:
  assumes "all_equal (take n xs)" and "take n xs \<noteq> []"
  shows "extract_rewards n Rmax xs = Inr (replicate (length (take n xs)) NaN)"
proof -
  have eq: "Min (set (take n xs)) = Max (set (take n xs))"
    using assms all_equal_iff by blast
  have "v = Max (set (take n xs))" if "v \<in> set (take n xs)" for v
  proof -
    have "Min (set (take n xs)) \<le> v" "v \<le> Max (set (take n xs))" using that by simp_all
    then show ?thesis using eq by linarith
  qed
  then have "map (\<lambda>v. np_scale Rmax (np_div (v - Min (set (take n xs)))
                     (Max (set (take n xs)) - Min (set (take n xs))))) (take n xs)
     = map (\<lambda>v. NaN) (take n xs)"
    by (intro map_cong) (simp_all add: eq np_div_def)
  then show ?thesis
    by (simp add: extract_rewards_def normalize_nonempty[OF assms(2)] rbind_def o_def
        map_replicate_const)
qed

theorem extract_rewards_constant_witness:
  "all_equal (take 2 [3, 3, 7]) \<and> take 2 [3, 3, 7::real] \<noteq> [] \<and>
   extract_rewards 2 10 [3, 3, 7] = Inr [NaN, NaN]"
  using extract_rewards_constant[of 2 "[3, 3, 7]" 10]
  by (simp add: all_equal_def)

subsection \<open>The four stages, one at a time\<close>

lemma rbind_Inr [simp]: "rbind (Inr v) f = f v"
  by (simp add: rbind_def)

lemma rbind_Inl [simp]: "rbind (Inl e) f = Inl e"
  by (simp add: rbind_def)

lemma dot_sum:
  assumes "length u = n" and "length v = n"
  shows "dot u v = (\<Sum>i<n. u ! i * v ! i)"
proof -
  have "dot u v = (\<Sum>i<length (map2 (*) u v). map2 (*) u v ! i)"
    unfolding dot_def by (simp add: sum_list_sum_nth atLeast0LessThan)
  also have "\<dots> = (\<Sum>i<n. u ! i * v ! i)"
    using assms by (intro sum.cong) simp_all
  finally show ?thesis .
qed

lemma sum_list_upt: "sum_list (map f [0..<n]) = (\<Sum>i<n. f i)"
  by (simp add: interv_sum_list_conv_sum_set_nat atLeast0LessThan)

lemma wf_array_nth: "wf_array M \<Longrightarrow> i < nrows M \<Longrightarrow> length (rows M ! i) = ncols M"
  by (simp add: wf_array_def nrows_def list_all_length)

lemma constraint_block_spec:
  assumes Tpi: "square n Tpi" and i: "i < length Tnotpi" and Tn: "square n (Tnotpi ! i)"
    and Tinv: "square n Tinv"
  shows "constraint_block Tpi Tnotpi Tinv i =
           Inr \<lparr>ncols = n, rows = spec_block n Tpi (Tnotpi ! i) Tinv\<rparr>"
proof -
  define Tn where "Tn = Tnotpi ! i"
  have lens: "length (rows Tpi) = n" "length (rows Tn) = n" "length (rows Tinv) = n"
    "ncols Tpi = n" "ncols Tn = n" "ncols Tinv = n"
    using Tpi Tn Tinv by (simp_all add: square_def nrows_def Tn_def)
  have rl: "length (rows Tpi ! a) = n" "length (rows Tn ! a) = n" "length (rows Tinv ! a) = n"
    if "a < n" for a
    using Tpi Tn Tinv that wf_array_nth[of Tpi a] wf_array_nth[of Tn a] wf_array_nth[of Tinv a]
    by (simp_all add: square_def Tn_def)
  have rows_eq: "map (\<lambda>r. map (\<lambda>j. dot r (col Tinv j)) [0..<n])
          (map (map (\<lambda>v. - 1 * v)) (map2 (map2 (-)) (rows Tpi) (rows Tn)))
        = spec_block n Tpi Tn Tinv"
  proof (rule nth_equalityI)
    show "length (map (\<lambda>r. map (\<lambda>j. dot r (col Tinv j)) [0..<n])
          (map (map (\<lambda>v. - 1 * v)) (map2 (map2 (-)) (rows Tpi) (rows Tn)))) = length (spec_block n Tpi Tn Tinv)"
      by (simp add: lens spec_block_def)
  next
    fix a assume "a < length (map (\<lambda>r. map (\<lambda>j. dot r (col Tinv j)) [0..<n])
          (map (map (\<lambda>v. - 1 * v)) (map2 (map2 (-)) (rows Tpi) (rows Tn))))"
    then have a: "a < n" by (simp add: lens)
    have "dot (map (\<lambda>v. - 1 * v) (map2 (-) (rows Tpi ! a) (rows Tn ! a))) (col Tinv j)
        = - sum_list (map (\<lambda>l. (entry Tpi a l - entry Tn a l) * entry Tinv l j) [0..<n])"
      if j: "j < n" for j
    proof -
      have "dot (map (\<lambda>v. - 1 * v) (map2 (-) (rows Tpi ! a) (rows Tn ! a))) (col Tinv j)
        = (\<Sum>l<n. (map (\<lambda>v. - 1 * v) (map2 (-) (rows Tpi ! a) (rows Tn ! a))) ! l * col Tinv j ! l)"
        by (rule dot_sum) (simp_all add: rl[OF a] col_def lens)
      also have "\<dots> = (\<Sum>l<n. - ((entry Tpi a l - entry Tn a l) * entry Tinv l j))"
        by (intro sum.cong) (simp_all add: rl[OF a] col_def lens entry_def algebra_simps)
      also have "\<dots> = - (\<Sum>l<n. (entry Tpi a l - entry Tn a l) * entry Tinv l j)"
        by (simp add: sum_negf)
      finally show ?thesis by (simp add: sum_list_upt)
    qed
    then show "map (\<lambda>r. map (\<lambda>j. dot r (col Tinv j)) [0..<n])
          (map (map (\<lambda>v. - 1 * v)) (map2 (map2 (-)) (rows Tpi) (rows Tn))) ! a = spec_block n Tpi Tn Tinv ! a"
      using a by (simp add: spec_block_def lens)
  qed
  show ?thesis
    using i rows_eq
    by (simp add: constraint_block_def list_get_def mat_sub_def matmul_def smult_def nrows_def
        lens Tn_def[symmetric])
qed

lemma for_loop_append:
  assumes step: "\<And>i c A b. i \<in> set js \<Longrightarrow> ncols A = m \<Longrightarrow>
      body i (c, A, b) = Inr (c, \<lparr>ncols = m, rows = rows A @ R i\<rparr>, b @ Z i)"
    and m: "ncols A = m"
  shows "for_loop body js (c, A, b) =
    Inr (c, \<lparr>ncols = m, rows = rows A @ concat (map R js)\<rparr>, b @ concat (map Z js))"
  using assms
proof (induction js arbitrary: A b)
  case Nil
  then show ?case by simp
next
  case (Cons j js)
  have "body j (c, A, b) = Inr (c, \<lparr>ncols = m, rows = rows A @ R j\<rparr>, b @ Z j)"
    using Cons.prems by simp
  moreover have "for_loop body js (c, \<lparr>ncols = m, rows = rows A @ R j\<rparr>, b @ Z j) =
    Inr (c, \<lparr>ncols = m, rows = rows \<lparr>ncols = m, rows = rows A @ R j\<rparr> @ concat (map R js)\<rparr>,
         (b @ Z j) @ concat (map Z js))"
    using Cons.prems by (intro Cons.IH) simp_all
  ultimately show ?case by simp
qed

lemma concat_replicate_const: "concat (map (\<lambda>i. replicate n x) js) = replicate (length js * n) x"
  by (induction js) (simp_all add: replicate_add)

lemma map2_replicate_right: "map2 f xs (replicate (length xs) y) = map (\<lambda>x. f x y) xs"
  by (induction xs) simp_all

lemma hstack_zeros: "hstack A (np_zeros (nrows A) n) = Inr \<lparr>ncols = ncols A + n, rows = pad n (rows A)\<rparr>"
  by (simp add: hstack_def np_zeros_def nrows_def pad_def map2_replicate_right)

lemma length_spec_block [simp]: "length (spec_block n Tpi Tn Tinv) = n"
  by (simp add: spec_block_def)

lemma length_spec_block_row: "i < n \<Longrightarrow> length (spec_block n Tpi Tn Tinv ! i) = n"
  by (simp add: spec_block_def)

lemma add_optimal_policy_constraints_spec:
  assumes Tpi: "square n Tpi" and len: "length Tnotpi = k - 1"
    and Tn: "\<And>i. i < k - 1 \<Longrightarrow> square n (Tnotpi ! i)"
    and Tinv: "square n Tinv" and A: "ncols A_ub = n"
  shows "add_optimal_policy_constraints k Tpi Tnotpi Tinv (c, A_ub, b_ub) =
    Inr (c,
         \<lparr>ncols = n,
            rows = rows A_ub @ concat (map (\<lambda>i. spec_block n Tpi (Tnotpi ! i) Tinv) [0..<k - 1])\<rparr>,
         b_ub @ replicate ((k - 1) * n) 0)"
proof -
  have "add_optimal_policy_constraints k Tpi Tnotpi Tinv (c, A_ub, b_ub) =
    Inr (c,
         \<lparr>ncols = n,
            rows = rows A_ub @ concat (map (\<lambda>i. spec_block n Tpi (Tnotpi ! i) Tinv) [0..<k - 1])\<rparr>,
         b_ub @ concat (map (\<lambda>i. replicate n 0) [0..<k - 1]))"
    unfolding add_optimal_policy_constraints_def
  proof (rule for_loop_append)
    fix i c' and A' :: ndarray and b'
    assume i: "i \<in> set [0..<k - 1]" and A': "ncols A' = n"
    then have "constraint_block Tpi Tnotpi Tinv i =
           Inr \<lparr>ncols = n, rows = spec_block n Tpi (Tnotpi ! i) Tinv\<rparr>"
      using constraint_block_spec[OF Tpi _ Tn Tinv, of i] len by simp
    then show "(case (c', A', b') of (c, A_ub, b_ub) \<Rightarrow>
           rbind (constraint_block Tpi Tnotpi Tinv i) (\<lambda>constraint_rows.
           rbind (vstack A_ub constraint_rows) (\<lambda>A_ub'.
             Inr (c, A_ub', b_ub @ replicate (nrows constraint_rows) 0)))) =
         Inr (c', \<lparr>ncols = n, rows = rows A' @ spec_block n Tpi (Tnotpi ! i) Tinv\<rparr>, b' @ replicate n 0)"
      using A' by (simp add: vstack_def nrows_def)
  qed (rule A)
  then show ?thesis by (simp add: concat_replicate_const)
qed

lemma hstack_no_padding:
  "hstack \<lparr>ncols = n, rows = rs\<rparr> (np_zeros (length rs) 0) = Inr \<lparr>ncols = n, rows = rs\<rparr>"
  by (simp add: hstack_def np_zeros_def nrows_def map2_replicate_right)

lemma rows_np_identity: "rows (np_identity n) = map (unit_row n) [0..<n]"
  by (simp add: np_identity_def unit_row_def)

lemma hstack_identity:
  assumes "length rs = n"
  shows "hstack \<lparr>ncols = n, rows = rs\<rparr> (np_identity n) = Inr \<lparr>ncols = n + n, rows = margin_rows n rs\<rparr>"
proof -
  have "map2 (@) rs (map (unit_row n) [0..<n]) = map (\<lambda>i. rs ! i @ unit_row n i) [0..<n]"
    using assms by (intro nth_equalityI) simp_all
  moreover have "ncols (np_identity n) = n" by (simp add: np_identity_def)
  ultimately show ?thesis
    using assms by (simp add: hstack_def nrows_def rows_np_identity margin_rows_def)
qed

lemma add_costly_single_step_constraints_spec:
  assumes Tpi: "square n Tpi" and len: "length Tnotpi = k - 1"
    and Tn: "\<And>i. i < k - 1 \<Longrightarrow> square n (Tnotpi ! i)"
    and Tinv: "square n Tinv" and A: "ncols A_ub = n" and c: "length c = n"
  shows "add_costly_single_step_constraints n k Tpi Tnotpi Tinv (c, A_ub, b_ub) =
    Inr (c @ replicate n (- 1),
         \<lparr>ncols = n + n,
            rows = pad n (rows A_ub) @
              concat (map (\<lambda>i. margin_rows n (spec_block n Tpi (Tnotpi ! i) Tinv)) [0..<k - 1])\<rparr>,
         b_ub @ replicate ((k - 1) * n) 0)"
proof -
  let ?body = "(\<lambda>i (c', A_ub, b_ub).
         rbind (constraint_block Tpi Tnotpi Tinv i) (\<lambda>constraint_rows.
         let min_operator_entries = np_identity n in
         if length (c @ replicate n (- 1)) - n < n then Inl ValueError
         else
           let num_padding_cols = length (c @ replicate n (- 1)) - n - n;
               padding_entries = np_zeros (nrows constraint_rows) num_padding_cols
           in
           rbind (hstack constraint_rows padding_entries) (\<lambda>cp.
           rbind (hstack cp min_operator_entries) (\<lambda>constraint_rows.
           rbind (vstack A_ub constraint_rows) (\<lambda>A_ub'.
             Inr (c', A_ub', b_ub @ replicate (nrows constraint_rows) 0))))))"
  have loop: "for_loop ?body [0..<k - 1]
      (c @ replicate n (- 1), \<lparr>ncols = n + n, rows = pad n (rows A_ub)\<rparr>, b_ub) =
    Inr (c @ replicate n (- 1),
         \<lparr>ncols = n + n,
            rows = rows \<lparr>ncols = n + n, rows = pad n (rows A_ub)\<rparr> @
              concat (map (\<lambda>i. margin_rows n (spec_block n Tpi (Tnotpi ! i) Tinv)) [0..<k - 1])\<rparr>,
         b_ub @ concat (map (\<lambda>i. replicate n 0) [0..<k - 1]))"
  proof (rule for_loop_append)
    fix i c' and A' :: ndarray and b'
    assume i: "i \<in> set [0..<k - 1]" and A': "ncols A' = n + n"
    then have blk: "constraint_block Tpi Tnotpi Tinv i =
           Inr \<lparr>ncols = n, rows = spec_block n Tpi (Tnotpi ! i) Tinv\<rparr>"
      using constraint_block_spec[OF Tpi _ Tn Tinv, of i] len by simp
    show "?body i (c', A', b') =
         Inr (c', \<lparr>ncols = n + n, rows = rows A' @ margin_rows n (spec_block n Tpi (Tnotpi ! i) Tinv)\<rparr>,
              b' @ replicate n 0)"
      using A' c
      by (simp add: blk nrows_def hstack_no_padding[of n "spec_block n Tpi (Tnotpi ! i) Tinv", simplified]
          hstack_identity vstack_def margin_rows_def)
  qed simp
  show ?thesis
    unfolding add_costly_single_step_constraints_def
    using loop A by (simp add: Let_def hstack_zeros concat_replicate_const)
qed

lemma add_rmax_constraints_spec:
  assumes A: "ncols A_ub = m" and n: "n \<le> m"
  shows "add_rmax_constraints n Rmax (c, A_ub, b_ub) =
    Inr (c, \<lparr>ncols = m, rows = rows A_ub @ map (bound_row m) [0..<n]\<rparr>, b_ub @ replicate n Rmax)"
proof -
  have "add_rmax_constraints n Rmax (c, A_ub, b_ub) =
    Inr (c, \<lparr>ncols = m, rows = rows A_ub @ concat (map (\<lambda>i. [bound_row m i]) [0..<n])\<rparr>,
         b_ub @ concat (map (\<lambda>i. [Rmax]) [0..<n]))"
    unfolding add_rmax_constraints_def
  proof (rule for_loop_append)
    fix i c' and A' :: ndarray and b'
    assume i: "i \<in> set [0..<n]" and A': "ncols A' = m"
    then show "(case (c', A', b') of (c, A_ub, b_ub) \<Rightarrow>
       rbind (list_set (replicate (ncols A_ub) 0) i 1) (\<lambda>constraint_row.
       rbind (vstack A_ub (row_array constraint_row)) (\<lambda>A_ub'.
         Inr (c, A_ub', b_ub @ [Rmax])))) =
       Inr (c', \<lparr>ncols = m, rows = rows A' @ [bound_row m i]\<rparr>, b' @ [Rmax])"
      using n by (simp add: list_set_def vstack_def row_array_def bound_row_def)
  qed (rule A)
  moreover have "concat (map (\<lambda>i. [f i]) js) = map f js" for f :: "nat \<Rightarrow> real list" and js
    by (induction js) simp_all
  moreover have "concat (map (\<lambda>i. [Rmax]) [0..<n]) = replicate n Rmax"
    using concat_replicate_const[of 1 Rmax "[0..<n]"] by simp
  ultimately show ?thesis by simp
qed

lemma add_l1norm_constraints_spec:
  assumes A: "ncols A_ub = m" and c: "length c = m" and n: "n \<le> m"
  shows "add_l1norm_constraints n l1 (c, A_ub, b_ub) =
    Inr (c @ replicate n l1,
         \<lparr>ncols = m + n,
            rows = pad n (rows A_ub) @
              concat (map (\<lambda>i. [neg_row (m + n) i, abs_row (m + n) i (m + i)]) [0..<n])\<rparr>,
         b_ub @ replicate (2 * n) 0)"
proof -
  let ?body = "(\<lambda>i (c', A_ub, b_ub).
         rbind (list_set (replicate (ncols A_ub) 0) i (- 1)) (\<lambda>constraint_row_1.
         rbind (vstack A_ub (row_array constraint_row_1)) (\<lambda>A_ub1.
         let b_ub1 = b_ub @ [0] in
         rbind (list_set (replicate (ncols A_ub1) 0) i 1) (\<lambda>row2.
         rbind (list_set row2 (length (c @ replicate n l1) - n + i) (- 1)) (\<lambda>constraint_row_2.
         rbind (vstack A_ub1 (row_array constraint_row_2)) (\<lambda>A_ub2.
           Inr (c', A_ub2, b_ub1 @ [0])))))))"
  have loop: "for_loop ?body [0..<n]
      (c @ replicate n l1, \<lparr>ncols = m + n, rows = pad n (rows A_ub)\<rparr>, b_ub) =
    Inr (c @ replicate n l1,
         \<lparr>ncols = m + n,
            rows = rows \<lparr>ncols = m + n, rows = pad n (rows A_ub)\<rparr> @
              concat (map (\<lambda>i. [neg_row (m + n) i, abs_row (m + n) i (m + i)]) [0..<n])\<rparr>,
         b_ub @ concat (map (\<lambda>i. [0, 0]) [0..<n]))"
  proof (rule for_loop_append)
    fix i c' and A' :: ndarray and b'
    assume i: "i \<in> set [0..<n]" and A': "ncols A' = m + n"
    then show "?body i (c', A', b') =
         Inr (c', \<lparr>ncols = m + n, rows = rows A' @ [neg_row (m + n) i, abs_row (m + n) i (m + i)]\<rparr>,
              b' @ [0, 0])"
      using n c by (simp add: list_set_def vstack_def row_array_def neg_row_def abs_row_def)
  qed simp
  have "concat (map (\<lambda>i. [0, 0::real]) [0..<n]) = replicate (2 * n) 0"
    using concat_replicate_const[of 2 "0::real" "[0..<n]"]
    by (simp add: numeral_2_eq_2 mult.commute)
  then show ?thesis
    unfolding add_l1norm_constraints_def
    using loop A by (simp add: Let_def hstack_zeros)
qed

subsection \<open>The policy and deviation matrices\<close>

lemma list_index_first: "v \<in> set xs \<Longrightarrow> list_index xs v = Inr (first_index xs v)"
  by (induction xs) auto

lemma first_index_less: "v \<in> set xs \<Longrightarrow> first_index xs v < length xs"
  by (induction xs) auto

lemma nth_first_index: "v \<in> set xs \<Longrightarrow> xs ! first_index xs v = v"
  by (induction xs) auto

lemma first_index_nth: "distinct xs \<Longrightarrow> i < length xs \<Longrightarrow> first_index xs (xs ! i) = i"
proof (induction xs arbitrary: i)
  case Nil
  then show ?case by simp
next
  case (Cons x xs)
  then show ?case by (cases i) auto
qed

lemma first_index_image: "distinct xs \<Longrightarrow> first_index xs ` set xs = {..<length xs}"
proof (intro equalityI subsetI)
  fix j assume "j \<in> first_index xs ` set xs"
  then show "j \<in> {..<length xs}" using first_index_less by fastforce
next
  fix j assume d: "distinct xs" and "j \<in> {..<length xs}"
  then have j: "j < length xs" by simp
  then have "xs ! j \<in> set xs" by simp
  moreover have "first_index xs (xs ! j) = j" using d j by (rule first_index_nth)
  ultimately show "j \<in> first_index xs ` set xs" by force
qed

lemma for_loop_fold:
  assumes "\<And>v s. v \<in> set vs \<Longrightarrow> Inv s \<Longrightarrow> body v s = Inr (g v s) \<and> Inv (g v s)"
    and "Inv s"
  shows "for_loop body vs s = Inr (fold g vs s) \<and> Inv (fold g vs s)"
  using assms
proof (induction vs arbitrary: s)
  case Nil
  then show ?case by simp
next
  case (Cons v vs)
  have "body v s = Inr (g v s)" "Inv (g v s)" using Cons.prems by simp_all
  moreover have "for_loop body vs (g v s) = Inr (fold g vs (g v s)) \<and> Inv (fold g vs (g v s))"
    using Cons.prems \<open>Inv (g v s)\<close> by (intro Cons.IH) simp_all
  ultimately show ?case by simp
qed

lemma length_fold_update [simp]:
  "length (fold (\<lambda>t ys. ys[f t := h (f t)]) ts xs) = length xs"
  by (induction ts arbitrary: xs) simp_all

lemma fold_update_nth:
  "j < length xs \<Longrightarrow>
   fold (\<lambda>t ys. ys[f t := h (f t)]) ts xs ! j = (if j \<in> f ` set ts then h j else xs ! j)"
proof (induction ts arbitrary: xs)
  case Nil
  then show ?case by simp
next
  case (Cons t ts)
  then show ?case by (auto simp: nth_list_update)
qed

lemma fold_update_all:
  assumes "length xs = n" and "f ` set ts = {..<n}"
  shows "fold (\<lambda>t ys. ys[f t := h (f t)]) ts xs = map h [0..<n]"
  using assms by (intro nth_equalityI) (simp_all add: fold_update_nth)

lemma rows_fold_row_update:
  "i < length (rows M) \<Longrightarrow>
   rows (fold (\<lambda>t M. M\<lparr>rows := (rows M)[i := (rows M ! i)[f t := h (f t)]]\<rparr>) ts M) =
     (rows M)[i := fold (\<lambda>t ys. ys[f t := h (f t)]) ts (rows M ! i)]"
  by (induction ts arbitrary: M) simp_all

lemma ncols_fold_row_update [simp]:
  "ncols (fold (\<lambda>t M. M\<lparr>rows := (rows M)[i := (rows M ! i)[f t := h (f t)]]\<rparr>) ts M) = ncols M"
  by (induction ts arbitrary: M) simp_all

lemma rows_fold_rows_update:
  "rows (fold (\<lambda>t M. M\<lparr>rows := (rows M)[f t := h (f t)]\<rparr>) ts M) =
     fold (\<lambda>t ys. ys[f t := h (f t)]) ts (rows M)"
  by (induction ts arbitrary: M) simp_all

lemma ncols_fold_rows_update [simp]:
  "ncols (fold (\<lambda>t M. M\<lparr>rows := (rows M)[f t := h (f t)]\<rparr>) ts M) = ncols M"
  by (induction ts arbitrary: M) simp_all

lemma wf_array_update:
  "wf_array M \<Longrightarrow> length r = ncols M \<Longrightarrow> wf_array (M\<lparr>rows := (rows M)[i := r]\<rparr>)"
  by (auto simp: wf_array_def list_all_iff dest: set_update_subset_insert[THEN subsetD])

text \<open>The inner loop over \<open>to_state\<close> overwrites one row of the matrix.\<close>

lemma fill_row:
  assumes d: "distinct S" and sq: "square (length S) M" and i: "i < length S"
    and r: "length r = length S"
    and step: "\<And>to M. to \<in> set S \<Longrightarrow> square (length S) M \<Longrightarrow>
       body to M =
         Inr (M\<lparr>rows := (rows M)[i := (rows M ! i)[first_index S to := r ! first_index S to]]\<rparr>)"
  shows "for_loop body S M = Inr (M\<lparr>rows := (rows M)[i := r]\<rparr>)"
proof -
  let ?g = "\<lambda>t M. M\<lparr>rows := (rows M)[i := (rows M ! i)[first_index S t := (\<lambda>j. r ! j) (first_index S t)]]\<rparr>"
  have "for_loop body S M = Inr (fold ?g S M) \<and> square (length S) (fold ?g S M)"
  proof (rule for_loop_fold)
    fix v s assume v: "v \<in> set S" and s: "square (length S) s"
    have "wf_array (s\<lparr>rows := (rows s)[i := (rows s ! i)[first_index S v := r ! first_index S v]]\<rparr>)"
      using s i wf_array_nth[of s i] by (intro wf_array_update) (simp_all add: square_def)
    then show "body v s = Inr (?g v s) \<and> square (length S) (?g v s)"
      using step[OF v s] s by (simp add: square_def nrows_def)
  qed (rule sq)
  moreover have "fold ?g S M = M\<lparr>rows := (rows M)[i := r]\<rparr>"
  proof -
    have li: "i < length (rows M)" using sq i by (simp add: square_def nrows_def)
    have lr: "length (rows M ! i) = length S"
      using sq i wf_array_nth[of M i] by (simp add: square_def)
    have "fold (\<lambda>t ys. ys[first_index S t := (\<lambda>j. r ! j) (first_index S t)]) S (rows M ! i)
        = map (\<lambda>j. r ! j) [0..<length S]"
      using lr first_index_image[OF d] by (rule fold_update_all)
    also have "\<dots> = r" using map_nth[of r] r by simp
    finally have "rows (fold ?g S M) = (rows M)[i := r]"
      by (simp add: rows_fold_row_update[OF li])
    moreover have "ncols (fold ?g S M) = ncols M" by simp
    ultimately show ?thesis by (intro ndarray.equality) simp_all
  qed
  ultimately show ?thesis by simp
qed

text \<open>The outer loop over \<open>from_state\<close> overwrites every row.\<close>

lemma fill_rows:
  assumes d: "distinct S" and sq: "square (length S) M"
    and h: "\<And>i. i < length S \<Longrightarrow> length (h i) = length S"
    and step: "\<And>s M. s \<in> set S \<Longrightarrow> square (length S) M \<Longrightarrow>
       body s M = Inr (M\<lparr>rows := (rows M)[first_index S s := h (first_index S s)]\<rparr>)"
  shows "for_loop body S M = Inr \<lparr>ncols = length S, rows = map h [0..<length S]\<rparr>"
proof -
  let ?g = "\<lambda>t M. M\<lparr>rows := (rows M)[first_index S t := h (first_index S t)]\<rparr>"
  have "for_loop body S M = Inr (fold ?g S M) \<and> square (length S) (fold ?g S M)"
  proof (rule for_loop_fold)
    fix v s assume v: "v \<in> set S" and s: "square (length S) s"
    have "wf_array (s\<lparr>rows := (rows s)[first_index S v := h (first_index S v)]\<rparr>)"
      using s h[OF first_index_less[OF v]] by (intro wf_array_update) (simp_all add: square_def)
    then show "body v s = Inr (?g v s) \<and> square (length S) (?g v s)"
      using step[OF v s] s by (simp add: square_def nrows_def)
  qed (rule sq)
  moreover have "fold ?g S M = \<lparr>ncols = length S, rows = map h [0..<length S]\<rparr>"
  proof -
    have "length (rows M) = length S" using sq by (simp add: square_def nrows_def)
    then have "fold (\<lambda>t ys. ys[first_index S t := h (first_index S t)]) S (rows M)
        = map h [0..<length S]"
      using first_index_image[OF d] by (rule fold_update_all)
    then have "rows (fold ?g S M) = map h [0..<length S]"
      by (simp add: rows_fold_rows_update)
    moreover have "ncols (fold ?g S M) = length S" using sq by (simp add: square_def)
    ultimately show ?thesis by (intro ndarray.equality) simp_all
  qed
  ultimately show ?thesis by simp
qed

lemma square_np_zeros: "square n (np_zeros n n)"
  by (simp add: square_def np_zeros_def nrows_def wf_array_def list_all_iff)

lemma block_index_less:
  assumes "i < (n::nat)" and "j < k"
  shows "i * k + j < n * k"
proof -
  have "i * k + j < i * k + k" using assms(2) by simp
  also have "\<dots> = Suc i * k" by simp
  also have "\<dots> \<le> n * k" using assms(1) by (intro mult_le_mono1) simp
  finally show ?thesis .
qed

lemma policy_defined:
  assumes "well_shaped S A T policy" and "s \<in> set S"
  shows "dict_get policy s = Inr (the (policy s)) \<and> the (policy s) \<in> set A"
  using assms by (auto simp: well_shaped_def list_all_iff dict_get_def split: option.splits)

lemma trans_fn_spec:
  assumes ws: "well_shaped S A T policy" and s1: "s1 \<in> set S" and a: "a \<in> set A"
    and s2: "s2 \<in> set S"
  shows "trans_fn S A T s1 a s2 =
    Inr (rows T ! (first_index S s1 * length A + first_index A a) ! first_index S s2)"
proof -
  have "first_index S s1 * length A + first_index A a < length S * length A"
    using first_index_less[OF s1] first_index_less[OF a] by (rule block_index_less)
  then show ?thesis
    using ws first_index_less[OF s2]
    by (simp add: trans_fn_def list_index_first s1 a s2 getitem_def well_shaped_def)
qed

lemma T_row_length:
  assumes ws: "well_shaped S A T policy" and i: "i < length S" and j: "j < length A"
  shows "length (rows T ! (i * length A + j)) = length S"
proof -
  have "i * length A + j < nrows T"
    using block_index_less[OF i j] ws by (simp add: well_shaped_def)
  then show ?thesis using ws wf_array_nth[of T "i * length A + j"] by (simp add: well_shaped_def)
qed

lemma setitem_step:
  assumes "s1 \<in> set S" and "s2 \<in> set S" and "square (length S) M"
  shows "rbind (list_index S s1) (\<lambda>i. rbind (list_index S s2) (\<lambda>j. setitem M i j t)) =
    Inr (M\<lparr>rows := (rows M)[first_index S s1 :=
                       (rows M ! first_index S s1)[first_index S s2 := t]]\<rparr>)"
  using assms first_index_less[of s1 S] first_index_less[of s2 S]
  by (simp add: list_index_first setitem_def square_def)

lemma length_policy_row:
  assumes ws: "well_shaped S A T policy" and i: "i < length S"
  shows "length (policy_row S A T policy i) = length S"
proof -
  have "the (policy (S ! i)) \<in> set A" using policy_defined[OF ws, of "S ! i"] i by simp
  then show ?thesis
    unfolding policy_row_def using first_index_less by (intro T_row_length[OF ws i]) fast
qed

lemma trans_mat_spec:
  assumes ws: "well_shaped S A T policy"
  shows "trans_mat S A T (dict_get policy) = Inr (spec_Tpi S A T policy)"
  unfolding trans_mat_def spec_Tpi_def
proof (rule fill_rows)
  show "distinct S" using ws by (simp add: well_shaped_def)
  show "square (length S) (np_zeros (length S) (length S))" by (rule square_np_zeros)
  show "length (policy_row S A T policy i) = length S" if "i < length S" for i
    using ws that by (rule length_policy_row)
next
  fix s M assume s: "s \<in> set S" and M: "square (length S) M"
  have d: "distinct S" using ws by (simp add: well_shaped_def)
  have pol: "dict_get policy s = Inr (the (policy s))" and a: "the (policy s) \<in> set A"
    using policy_defined[OF ws s] by simp_all
  have row: "policy_row S A T policy (first_index S s) =
      rows T ! (first_index S s * length A + first_index A (the (policy s)))"
    by (simp add: policy_row_def nth_first_index[OF s])
  show "for_loop (\<lambda>to_state M.
           rbind (dict_get policy s) (\<lambda>a.
           rbind (trans_fn S A T s a to_state) (\<lambda>t.
           rbind (list_index S s) (\<lambda>i.
           rbind (list_index S to_state) (\<lambda>j.
             setitem M i j t))))) S M =
        Inr (M\<lparr>rows := (rows M)[first_index S s := policy_row S A T policy (first_index S s)]\<rparr>)"
  proof (rule fill_row[OF d M first_index_less[OF s]])
    show "length (policy_row S A T policy (first_index S s)) = length S"
      using ws first_index_less[OF s] by (rule length_policy_row)
  next
    fix to M' assume to: "to \<in> set S" and M': "square (length S) M'"
    show "rbind (dict_get policy s) (\<lambda>a.
           rbind (trans_fn S A T s a to) (\<lambda>t.
           rbind (list_index S s) (\<lambda>i.
           rbind (list_index S to) (\<lambda>j.
             setitem M' i j t)))) =
         Inr (M'\<lparr>rows := (rows M')[first_index S s :=
            (rows M' ! first_index S s)[first_index S to :=
               policy_row S A T policy (first_index S s) ! first_index S to]]\<rparr>)"
      by (simp add: pol trans_fn_spec[OF ws s a to] setitem_step[OF s to M'] row)
  qed
qed

lemma deviation_action:
  assumes ws: "well_shaped S A T policy" and s: "s \<in> set S" and idx: "idx < length A - 1"
  shows "list_remove A (the (policy s)) = Inr (remove1 (the (policy s)) A) \<and>
         list_get (remove1 (the (policy s)) A) idx = Inr (remove1 (the (policy s)) A ! idx) \<and>
         remove1 (the (policy s)) A ! idx \<in> set A"
proof -
  have a: "the (policy s) \<in> set A" using policy_defined[OF ws s] by simp
  then have len: "length (remove1 (the (policy s)) A) = length A - 1"
    by (simp add: length_remove1)
  then have "remove1 (the (policy s)) A ! idx \<in> set (remove1 (the (policy s)) A)"
    using idx by (intro nth_mem) simp
  then have "remove1 (the (policy s)) A ! idx \<in> set A"
    using set_remove1_subset by fast
  then show ?thesis using a len idx by (simp add: list_remove_def list_get_def)
qed

lemma length_deviation_row:
  assumes ws: "well_shaped S A T policy" and i: "i < length S" and idx: "idx < length A - 1"
  shows "length (deviation_row S A T policy idx i) = length S"
proof -
  have "remove1 (the (policy (S ! i))) A ! idx \<in> set A"
    using deviation_action[OF ws _ idx, of "S ! i"] i by simp
  then show ?thesis
    unfolding deviation_row_def using first_index_less by (intro T_row_length[OF ws i]) fast
qed

lemma Tnotpi_entry_spec:
  assumes ws: "well_shaped S A T policy" and idx: "idx < length A - 1"
  shows "Tnotpi_entry S A T policy idx = Inr (spec_Tnotpi S A T policy idx)"
  unfolding Tnotpi_entry_def spec_Tnotpi_def
proof (rule fill_rows)
  show "distinct S" using ws by (simp add: well_shaped_def)
  show "square (length S) (np_zeros (length S) (length S))" by (rule square_np_zeros)
  show "length (deviation_row S A T policy idx i) = length S" if "i < length S" for i
    using ws that idx by (rule length_deviation_row)
next
  fix s M assume s: "s \<in> set S" and M: "square (length S) M"
  have d: "distinct S" using ws by (simp add: well_shaped_def)
  have pol: "dict_get policy s = Inr (the (policy s))"
    using policy_defined[OF ws s] by simp
  define npa where "npa = remove1 (the (policy s)) A ! idx"
  have rem: "list_remove A (the (policy s)) = Inr (remove1 (the (policy s)) A)"
    and get: "list_get (remove1 (the (policy s)) A) idx = Inr npa"
    and npa: "npa \<in> set A"
    using deviation_action[OF ws s idx] by (simp_all add: npa_def)
  have row: "deviation_row S A T policy idx (first_index S s) =
      rows T ! (first_index S s * length A + first_index A npa)"
    by (simp add: deviation_row_def nth_first_index[OF s] npa_def)
  have "for_loop (\<lambda>to_state M.
           rbind (trans_fn S A T s npa to_state) (\<lambda>t.
           rbind (list_index S s) (\<lambda>i1.
           rbind (list_index S to_state) (\<lambda>i2.
             setitem M i1 i2 t)))) S M =
        Inr (M\<lparr>rows := (rows M)[first_index S s := deviation_row S A T policy idx (first_index S s)]\<rparr>)"
  proof (rule fill_row[OF d M first_index_less[OF s]])
    show "length (deviation_row S A T policy idx (first_index S s)) = length S"
      using ws first_index_less[OF s] idx by (rule length_deviation_row)
  next
    fix to M' assume to: "to \<in> set S" and M': "square (length S) M'"
    show "rbind (trans_fn S A T s npa to) (\<lambda>t.
           rbind (list_index S s) (\<lambda>i1.
           rbind (list_index S to) (\<lambda>i2.
             setitem M' i1 i2 t))) =
         Inr (M'\<lparr>rows := (rows M')[first_index S s :=
            (rows M' ! first_index S s)[first_index S to :=
               deviation_row S A T policy idx (first_index S s) ! first_index S to]]\<rparr>)"
      by (simp add: trans_fn_spec[OF ws s npa to] setitem_step[OF s to M'] row)
  qed
  then show "rbind (dict_get policy s) (\<lambda>p.
       rbind (list_remove A p) (\<lambda>Atmp.
       rbind (list_get Atmp idx) (\<lambda>non_policy_action.
         for_loop (\<lambda>to_state M.
           rbind (trans_fn S A T s non_policy_action to_state) (\<lambda>t.
           rbind (list_index S s) (\<lambda>i1.
           rbind (list_index S to_state) (\<lambda>i2.
             setitem M i1 i2 t)))) S M))) =
      Inr (M\<lparr>rows := (rows M)[first_index S s := deviation_row S A T policy idx (first_index S s)]\<rparr>)"
    by (simp add: pol rem get)
qed

lemma for_collect_map:
  assumes "\<And>v. v \<in> set vs \<Longrightarrow> body v = Inr (g v)"
  shows "for_collect body vs = Inr (map g vs)"
  using assms by (induction vs) simp_all

lemma build_Tnotpi_spec:
  assumes ws: "well_shaped S A T policy"
  shows "build_Tnotpi S A T policy = Inr (map (spec_Tnotpi S A T policy) [0..<length A - 1])"
  unfolding build_Tnotpi_def
  by (rule for_collect_map) (simp add: Tnotpi_entry_spec[OF ws])

subsection \<open>Rows read as constraints\<close>

lemma dot_sum_le:
  assumes "length u \<le> length v"
  shows "dot u v = (\<Sum>i<length u. u ! i * v ! i)"
proof -
  have "dot u v = (\<Sum>i<length (map2 (*) u v). map2 (*) u v ! i)"
    unfolding dot_def by (simp add: sum_list_sum_nth atLeast0LessThan)
  also have "\<dots> = (\<Sum>i<length u. u ! i * v ! i)"
    using assms by (intro sum.cong) simp_all
  finally show ?thesis .
qed

lemma dot_append:
  assumes "length u \<le> length x"
  shows "dot (u @ w) x = dot u x + dot w (drop (length u) x)"
proof -
  have "zip (u @ w) x = zip u (take (length u) x) @ zip w (drop (length u) x)"
    by (rule zip_append1)
  moreover have "zip u (take (length u) x) = zip u x"
    using assms by (intro nth_equalityI) simp_all
  ultimately show ?thesis by (simp add: dot_def)
qed

lemma dot_replicate_zero [simp]: "dot (replicate m 0) x = 0"
proof (induction m arbitrary: x)
  case 0
  show ?case by (simp add: dot_def)
next
  case (Suc m)
  show ?case using Suc[of "tl x"] by (cases x) (simp_all add: dot_def)
qed

lemma dot_pad:
  assumes "length u \<le> length x"
  shows "dot (u @ replicate m 0) x = dot u x"
  using dot_append[OF assms, of "replicate m 0"] by simp

lemma dot_take:
  assumes "length u \<le> n"
  shows "dot u (take n x) = dot u x"
proof -
  have "zip u (take n x) = zip u x"
    using assms by (intro nth_equalityI) simp_all
  then show ?thesis by (simp add: dot_def)
qed

lemma dot_update:
  assumes i: "i < length u" and le: "length u \<le> length x"
  shows "dot (u[i := a]) x = dot u x + (a - u ! i) * x ! i"
proof -
  have "dot (u[i := a]) x = (\<Sum>k<length u. u[i := a] ! k * x ! k)"
    using le dot_sum_le[of "u[i := a]" x] by simp
  also have "\<dots> = (\<Sum>k<length u. u ! k * x ! k + (if k = i then (a - u ! i) * x ! i else 0))"
    by (intro sum.cong) (simp_all add: nth_list_update algebra_simps)
  also have "\<dots> = (\<Sum>k<length u. u ! k * x ! k) + (a - u ! i) * x ! i"
    using i by (simp add: sum.distrib)
  finally show ?thesis using le by (simp add: dot_sum_le)
qed

lemma dot_unit_row:
  assumes "i < m" and "m \<le> length x"
  shows "dot (unit_row m i) x = x ! i"
proof -
  have "dot (unit_row m i) x = (\<Sum>k<m. (if i = k then 1 else 0) * x ! k)"
    using assms dot_sum_le[of "unit_row m i" x] by (simp add: unit_row_def)
  also have "\<dots> = (\<Sum>k<m. if k = i then x ! k else 0)"
    by (intro sum.cong) simp_all
  also have "\<dots> = x ! i" using assms by simp
  finally show ?thesis .
qed

lemma dot_bound_row:
  assumes "i < m" and "m \<le> length x"
  shows "dot (bound_row m i) x = x ! i"
  unfolding bound_row_def using assms by (simp add: dot_update)

lemma dot_neg_row:
  assumes "i < m" and "m \<le> length x"
  shows "dot (neg_row m i) x = - x ! i"
  unfolding neg_row_def using assms by (simp add: dot_update)

lemma dot_abs_row:
  assumes "i < m" and "j < m" and "i \<noteq> j" and "m \<le> length x"
  shows "dot (abs_row m i j) x = x ! i - x ! j"
  unfolding abs_row_def using assms by (simp add: dot_update)

lemma dot_spec_block:
  assumes i: "i < n" and x: "n \<le> length x"
  shows "dot (spec_block n Tpi Tn Tinv ! i) x = - advantage n Tpi Tn Tinv x i"
proof -
  let ?d = "\<lambda>l. entry Tpi i l - entry Tn i l"
  have "dot (spec_block n Tpi Tn Tinv ! i) x =
      (\<Sum>j<n. (- (\<Sum>l<n. ?d l * entry Tinv l j)) * x ! j)"
    using i x dot_sum_le[of "spec_block n Tpi Tn Tinv ! i" x]
    by (simp add: spec_block_def sum_list_upt)
  also have "\<dots> = - (\<Sum>j<n. \<Sum>l<n. ?d l * entry Tinv l j * x ! j)"
    by (simp add: sum_negf sum_distrib_right)
  also have "(\<Sum>j<n. \<Sum>l<n. ?d l * entry Tinv l j * x ! j) =
      (\<Sum>l<n. \<Sum>j<n. ?d l * entry Tinv l j * x ! j)"
    by (rule sum.swap)
  also have "\<dots> = (\<Sum>l<n. ?d l * (\<Sum>j<n. entry Tinv l j * x ! j))"
    by (simp add: sum_distrib_left mult.assoc)
  finally show ?thesis by (simp add: advantage_def sum_list_upt)
qed

lemma concat_chunk_nth:
  assumes "\<And>j. j \<in> set js \<Longrightarrow> length (F j) = n" and "p < length js" and "i < n"
  shows "concat (map F js) ! (p * n + i) = F (js ! p) ! i"
  using assms
proof (induction js arbitrary: p)
  case Nil
  then show ?case by simp
next
  case (Cons j js)
  show ?case
  proof (cases p)
    case 0
    then show ?thesis using Cons.prems by (simp add: nth_append)
  next
    case (Suc q)
    then have "concat (map F js) ! (q * n + i) = F (js ! q) ! i"
      using Cons.prems by (intro Cons.IH) simp_all
    then show ?thesis using Cons.prems Suc by (simp add: nth_append)
  qed
qed

lemma length_concat_chunks:
  assumes "\<And>j. j \<in> set js \<Longrightarrow> length (F j) = n"
  shows "length (concat (map F js)) = length js * n"
  using assms by (induction js) simp_all

lemma chunk_index_less:
  assumes "p < (m::nat)" and "i < n"
  shows "p * n + i < m * n"
  using assms by (rule block_index_less)

lemma feasible_rowD:
  assumes "feasible A_ub b_ub x" and "p < length (rows A_ub)"
  shows "dot (rows A_ub ! p) x \<le> b_ub ! p"
  using assms by (simp add: feasible_def list_all2_conv_all_nth)

lemma square_spec_Tpi:
  assumes "well_shaped S A T policy"
  shows "square (length S) (spec_Tpi S A T policy)"
  using assms length_policy_row[OF assms]
  by (simp add: square_def spec_Tpi_def nrows_def wf_array_def list_all_iff)

lemma square_spec_Tnotpi:
  assumes "well_shaped S A T policy" and "idx < length A - 1"
  shows "square (length S) (spec_Tnotpi S A T policy idx)"
  using assms length_deviation_row[OF assms(1) _ assms(2)]
  by (simp add: square_def spec_Tnotpi_def nrows_def wf_array_def list_all_iff)

text \<open>
  Claim C2. For well-shaped inputs the two matrix builders return \<open>Tpi\<close> with row \<open>i\<close>
  equal to the row of \<open>T\<close> for state \<open>i\<close> and the policy's action, and \<open>Tnotpi[idx]\<close> with
  row \<open>i\<close> equal to the row of \<open>T\<close> for state \<open>i\<close> and the \<open>idx\<close>-th entry of the action list
  with the policy's action removed. With these matrices and any \<open>n\<close>-by-\<open>n\<close> array in the place
  of the resolvent, the first stage keeps \<open>c\<close> and the columns of \<open>A_ub\<close>, appends for
  \<open>idx = 0..k-2\<close>, in this order, the \<open>n\<close> rows of \<open>-(Tpi - Tnotpi[idx]) @ T_disc_inv\<close>, and
  appends \<open>(k-1) * n\<close> zeros to \<open>b_ub\<close>. Every feasible point of the extended system has a
  non-negative advantage \<open>((Tpi - Tnotpi[idx]) @ T_disc_inv @ x[0:n])_i\<close> at every state and
  every deviation index.
\<close>

theorem add_optimal_policy_constraints_blocks:
  assumes ws: "well_shaped S A T policy"
    and Tinv: "square (length S) T_disc_inv"
    and A: "ncols A_ub = length S" and b: "length b_ub = nrows A_ub"
  shows "let n = length S; k = length A;
             Tpi = spec_Tpi S A T policy;
             Tnotpi = map (spec_Tnotpi S A T policy) [0..<k - 1];
             A_ub' = \<lparr>ncols = n,
                       rows = rows A_ub @
                         concat (map (\<lambda>idx. spec_block n Tpi (Tnotpi ! idx) T_disc_inv) [0..<k - 1])\<rparr>;
             b_ub' = b_ub @ replicate ((k - 1) * n) 0
         in trans_mat S A T (dict_get policy) = Inr Tpi \<and>
            build_Tnotpi S A T policy = Inr Tnotpi \<and>
            add_optimal_policy_constraints k Tpi Tnotpi T_disc_inv (c, A_ub, b_ub) =
              Inr (c, A_ub', b_ub') \<and>
            nrows A_ub' = nrows A_ub + (k - 1) * n \<and> ncols A_ub' = ncols A_ub \<and>
            length b_ub' = nrows A_ub' \<and>
            (\<forall>x. feasible A_ub' b_ub' x \<longrightarrow>
               (\<forall>idx < k - 1. \<forall>i < n.
                  0 \<le> advantage n Tpi (Tnotpi ! idx) T_disc_inv (take n x) i))"
proof -
  define n where "n = length S"
  define k where "k = length A"
  define Tpi where "Tpi = spec_Tpi S A T policy"
  define Tnotpi where "Tnotpi = map (spec_Tnotpi S A T policy) [0..<k - 1]"
  define blocks where
    "blocks = concat (map (\<lambda>idx. spec_block n Tpi (Tnotpi ! idx) T_disc_inv) [0..<k - 1])"
  define A_ub' where "A_ub' = \<lparr>ncols = n, rows = rows A_ub @ blocks\<rparr>"
  define b_ub' where "b_ub' = b_ub @ replicate ((k - 1) * n) 0"
  have sqTpi: "square n Tpi" unfolding n_def Tpi_def using ws by (rule square_spec_Tpi)
  have lenT: "length Tnotpi = k - 1" by (simp add: Tnotpi_def)
  have sqTn: "square n (Tnotpi ! i)" if "i < k - 1" for i
    using square_spec_Tnotpi[OF ws, of i] that by (simp add: Tnotpi_def n_def k_def)
  have stage: "add_optimal_policy_constraints k Tpi Tnotpi T_disc_inv (c, A_ub, b_ub) =
      Inr (c, A_ub', b_ub')"
    unfolding A_ub'_def b_ub'_def blocks_def
    using sqTpi lenT sqTn Tinv A by (intro add_optimal_policy_constraints_spec) (simp_all add: n_def)
  have "length blocks = length [0..<k - 1] * n"
    unfolding blocks_def by (rule length_concat_chunks) simp
  then have lenblocks: "length blocks = (k - 1) * n" by simp
  have feas: "0 \<le> advantage n Tpi (Tnotpi ! idx) T_disc_inv (take n x) i"
    if fx: "feasible A_ub' b_ub' x" and idx: "idx < k - 1" and i: "i < n" for x idx i
  proof -
    have lx: "length x = n" using fx by (simp add: feasible_def A_ub'_def)
    have p: "idx * n + i < (k - 1) * n" using idx i by (rule chunk_index_less)
    have "blocks ! (idx * n + i) = spec_block n Tpi (Tnotpi ! ([0..<k - 1] ! idx)) T_disc_inv ! i"
      unfolding blocks_def using idx i by (intro concat_chunk_nth) simp_all
    then have row: "rows A_ub' ! (length (rows A_ub) + (idx * n + i)) =
        spec_block n Tpi (Tnotpi ! idx) T_disc_inv ! i"
      using idx by (simp add: A_ub'_def)
    have bz: "b_ub' ! (length (rows A_ub) + (idx * n + i)) = 0"
      using b p by (simp add: b_ub'_def nrows_def nth_append)
    have "dot (rows A_ub' ! (length (rows A_ub) + (idx * n + i))) x
        \<le> b_ub' ! (length (rows A_ub) + (idx * n + i))"
      using fx p by (intro feasible_rowD) (simp_all add: A_ub'_def lenblocks)
    then have "- advantage n Tpi (Tnotpi ! idx) T_disc_inv x i \<le> 0"
      using i lx by (simp add: row bz dot_spec_block)
    then show ?thesis using lx by simp
  qed
  have "trans_mat S A T (dict_get policy) = Inr Tpi"
    unfolding Tpi_def using ws by (rule trans_mat_spec)
  moreover have "build_Tnotpi S A T policy = Inr Tnotpi"
    unfolding Tnotpi_def k_def using ws by (rule build_Tnotpi_spec)
  moreover have "nrows A_ub' = nrows A_ub + (k - 1) * n" "ncols A_ub' = ncols A_ub"
    "length b_ub' = nrows A_ub'"
    using A b by (simp_all add: A_ub'_def b_ub'_def nrows_def lenblocks n_def)
  ultimately show ?thesis
    using stage feas
    unfolding Let_def n_def[symmetric] k_def[symmetric] Tpi_def[symmetric] Tnotpi_def[symmetric]
      blocks_def[symmetric] A_ub'_def[symmetric] b_ub'_def[symmetric]
    by blast
qed

subsection \<open>The demo input, evaluated\<close>

lemma upt_2: "[0..<2] = [0, 1]"
  by (simp add: upt_rec)

lemma demo_well_shaped: "well_shaped demo_S demo_A demo_T demo_pi"
  by (simp add: well_shaped_def demo_S_def demo_A_def demo_T_def demo_pi_def nrows_def wf_array_def)

lemma demo_square_Tinv: "square 2 demo_Tinv"
  by (simp add: square_def demo_Tinv_def nrows_def wf_array_def)

lemma demo_spec_Tpi: "spec_Tpi demo_S demo_A demo_T demo_pi = \<lparr>ncols = 2, rows = [[2/5, 3/5], [1, 0]]\<rparr>"
  by (simp add: spec_Tpi_def policy_row_def demo_S_def demo_A_def demo_T_def demo_pi_def upt_2)

lemma demo_spec_Tnotpi: "spec_Tnotpi demo_S demo_A demo_T demo_pi 0 = \<lparr>ncols = 2, rows = [[9/10, 1/10], [1, 0]]\<rparr>"
  by (simp add: spec_Tnotpi_def deviation_row_def demo_S_def demo_A_def demo_T_def demo_pi_def upt_2)

lemma demo_block:
  "spec_block 2 \<lparr>ncols = 2, rows = [[2/5, 3/5], [1, 0]]\<rparr> \<lparr>ncols = 2, rows = [[9/10, 1/10], [1, 0]]\<rparr> demo_Tinv
    = [[25/77, - 25/77], [0, 0]]"
  by (simp add: spec_block_def entry_def demo_Tinv_def upt_2)

lemma demo_lengths: "length demo_S = 2" "length demo_A = 2"
  by (simp_all add: demo_S_def demo_A_def)

lemma upt_1: "[0..<1] = [0]"
  by simp

lemma replicate_2: "replicate 2 v = [v, v]"
  by (simp add: numeral_2_eq_2)

theorem add_optimal_policy_constraints_blocks_witness:
  "well_shaped demo_S demo_A demo_T demo_pi \<and> square (length demo_S) demo_Tinv \<and>
   add_optimal_policy_constraints 2
     \<lparr>ncols = 2, rows = [[2/5, 3/5], [1, 0]]\<rparr> [\<lparr>ncols = 2, rows = [[9/10, 1/10], [1, 0]]\<rparr>]
     demo_Tinv ([0, 0], \<lparr>ncols = 2, rows = []\<rparr>, []) =
     Inr ([0, 0], \<lparr>ncols = 2, rows = [[25/77, - 25/77], [0, 0]]\<rparr>, [0, 0])"
proof -
  have sq: "square (length demo_S) demo_Tinv"
    using demo_square_Tinv by (simp add: demo_lengths)
  have "ncols \<lparr>ncols = 2, rows = []\<rparr> = length demo_S"
    "length ([]::real list) = nrows \<lparr>ncols = 2, rows = []\<rparr>"
    by (simp_all add: demo_lengths nrows_def)
  from add_optimal_policy_constraints_blocks[OF demo_well_shaped sq this, of "[0, 0]"]
  show ?thesis
    using demo_well_shaped sq
    by (simp add: Let_def demo_lengths upt_1 demo_spec_Tpi demo_spec_Tnotpi demo_block replicate_2)
qed

subsection \<open>The composed linear program\<close>

lemma mat_sub_discount:
  assumes "square n Tpi"
  shows "mat_sub (np_identity n) (smult gamma Tpi) = Inr (discount_matrix n gamma Tpi)"
proof -
  have len: "length (rows Tpi) = n" "ncols Tpi = n"
    using assms by (simp_all add: square_def nrows_def)
  have rl: "length (rows Tpi ! i) = n" if "i < n" for i
    using assms that wf_array_nth[of Tpi i] by (simp add: square_def)
  have "map2 (map2 (-)) (map (\<lambda>i. map (\<lambda>j. if i = j then 1 else 0) [0..<n]) [0..<n])
          (map (map ((*) gamma)) (rows Tpi))
      = map (\<lambda>i. map (\<lambda>j. (if i = j then 1 else 0) - gamma * entry Tpi i j) [0..<n]) [0..<n]"
  proof (rule nth_equalityI)
    show "length (map2 (map2 (-)) (map (\<lambda>i. map (\<lambda>j. if i = j then 1 else 0) [0..<n]) [0..<n])
          (map (map ((*) gamma)) (rows Tpi))) =
       length (map (\<lambda>i. map (\<lambda>j. (if i = j then 1 else 0) - gamma * entry Tpi i j) [0..<n]) [0..<n])"
      by (simp add: len)
  next
    fix i assume "i < length (map2 (map2 (-)) (map (\<lambda>i. map (\<lambda>j. if i = j then 1 else 0) [0..<n]) [0..<n])
          (map (map ((*) gamma)) (rows Tpi)))"
    then have i: "i < n" by (simp add: len)
    have "map2 (-) (map (\<lambda>j. if i = j then 1 else 0) [0..<n]) (map ((*) gamma) (rows Tpi ! i))
       = map (\<lambda>j. (if i = j then 1 else 0) - gamma * entry Tpi i j) [0..<n]"
      using rl[OF i] by (intro nth_equalityI) (simp_all add: entry_def)
    then show "map2 (map2 (-)) (map (\<lambda>i. map (\<lambda>j. if i = j then 1 else 0) [0..<n]) [0..<n])
          (map (map ((*) gamma)) (rows Tpi)) ! i =
        map (\<lambda>i. map (\<lambda>j. (if i = j then 1 else 0) - gamma * entry Tpi i j) [0..<n]) [0..<n] ! i"
      using i by (simp add: len)
  qed
  then show ?thesis
    by (simp add: mat_sub_def np_identity_def smult_def nrows_def len discount_matrix_def)
qed

lemma lp_problem_spec:
  assumes ws: "well_shaped S A T policy"
    and inv: "np_inv (discount_matrix (length S) gamma (spec_Tpi S A T policy)) = Inr Tinv"
    and Tinv: "square (length S) Tinv"
  shows "lp_problem mem np_inv S A T gamma policy l1 Rmax =
    Inr (spec_c mem (length S) l1,
         spec_A_ub (length S) (length A) (spec_Tpi S A T policy)
           (map (spec_Tnotpi S A T policy) [0..<length A - 1]) Tinv,
         spec_b_ub (length S) (length A) Rmax)"
proof -
  define n where "n = length S"
  define k where "k = length A"
  define Tpi where "Tpi = spec_Tpi S A T policy"
  define Tnotpi where "Tnotpi = map (spec_Tnotpi S A T policy) [0..<k - 1]"
  have sqTpi: "square n Tpi" unfolding n_def Tpi_def using ws by (rule square_spec_Tpi)
  have lenT: "length Tnotpi = k - 1" by (simp add: Tnotpi_def)
  have sqTn: "square n (Tnotpi ! i)" if "i < k - 1" for i
    using square_spec_Tnotpi[OF ws, of i] that by (simp add: Tnotpi_def n_def k_def)
  have sqTinv: "square n Tinv" using Tinv by (simp add: n_def)
  have s1: "add_optimal_policy_constraints k Tpi Tnotpi Tinv
        (map mem [0..<n], \<lparr>ncols = n, rows = []\<rparr>, []) =
      Inr (map mem [0..<n], \<lparr>ncols = n, rows = stage1_rows n k Tpi Tnotpi Tinv\<rparr>,
           replicate ((k - 1) * n) 0)"
    using add_optimal_policy_constraints_spec[OF sqTpi lenT sqTn sqTinv,
        of "\<lparr>ncols = n, rows = []\<rparr>" "map mem [0..<n]" "[]"]
    by (simp add: stage1_rows_def)
  have s2: "add_costly_single_step_constraints n k Tpi Tnotpi Tinv
        (map mem [0..<n], \<lparr>ncols = n, rows = stage1_rows n k Tpi Tnotpi Tinv\<rparr>,
           replicate ((k - 1) * n) 0) =
      Inr (map mem [0..<n] @ replicate n (- 1),
           \<lparr>ncols = n + n,
              rows = pad n (stage1_rows n k Tpi Tnotpi Tinv) @ stage2_rows n k Tpi Tnotpi Tinv\<rparr>,
           replicate ((k - 1) * n) 0 @ replicate ((k - 1) * n) 0)"
    using add_costly_single_step_constraints_spec[OF sqTpi lenT sqTn sqTinv,
        of "\<lparr>ncols = n, rows = stage1_rows n k Tpi Tnotpi Tinv\<rparr>" "map mem [0..<n]"
           "replicate ((k - 1) * n) 0"]
    by (simp add: stage2_rows_def)
  have s3: "add_rmax_constraints n Rmax
        (map mem [0..<n] @ replicate n (- 1),
           \<lparr>ncols = n + n,
              rows = pad n (stage1_rows n k Tpi Tnotpi Tinv) @ stage2_rows n k Tpi Tnotpi Tinv\<rparr>,
           replicate ((k - 1) * n) 0 @ replicate ((k - 1) * n) 0) =
      Inr (map mem [0..<n] @ replicate n (- 1),
           \<lparr>ncols = n + n,
              rows = pad n (stage1_rows n k Tpi Tnotpi Tinv) @ stage2_rows n k Tpi Tnotpi Tinv @
                     stage3_rows n\<rparr>,
           replicate ((k - 1) * n) 0 @ replicate ((k - 1) * n) 0 @ replicate n Rmax)"
    using add_rmax_constraints_spec[of
        "\<lparr>ncols = n + n,
              rows = pad n (stage1_rows n k Tpi Tnotpi Tinv) @ stage2_rows n k Tpi Tnotpi Tinv\<rparr>"
        "n + n" n Rmax]
    by (simp add: stage3_rows_def)
  have s4: "add_l1norm_constraints n l1
        (map mem [0..<n] @ replicate n (- 1),
           \<lparr>ncols = n + n,
              rows = pad n (stage1_rows n k Tpi Tnotpi Tinv) @ stage2_rows n k Tpi Tnotpi Tinv @
                     stage3_rows n\<rparr>,
           replicate ((k - 1) * n) 0 @ replicate ((k - 1) * n) 0 @ replicate n Rmax) =
      Inr (spec_c mem n l1, spec_A_ub n k Tpi Tnotpi Tinv, spec_b_ub n k Rmax)"
    using add_l1norm_constraints_spec[of
        "\<lparr>ncols = n + n,
              rows = pad n (stage1_rows n k Tpi Tnotpi Tinv) @ stage2_rows n k Tpi Tnotpi Tinv @
                     stage3_rows n\<rparr>"
        "n + n" "map mem [0..<n] @ replicate n (- 1)" n l1]
    by (simp add: spec_c_def spec_A_ub_def spec_b_ub_def stage4_rows_def)
  have tm: "trans_mat S A T (dict_get policy) = Inr Tpi"
    unfolding Tpi_def using ws by (rule trans_mat_spec)
  have bt: "build_Tnotpi S A T policy = Inr Tnotpi"
    unfolding Tnotpi_def k_def using ws by (rule build_Tnotpi_spec)
  have ms: "mat_sub (np_identity n) (smult gamma Tpi) = Inr (discount_matrix n gamma Tpi)"
    using sqTpi by (rule mat_sub_discount)
  have iv: "np_inv (discount_matrix n gamma Tpi) = Inr Tinv"
    using inv by (simp add: n_def Tpi_def)
  have "lp_problem mem np_inv S A T gamma policy l1 Rmax =
      Inr (spec_c mem n l1, spec_A_ub n k Tpi Tnotpi Tinv, spec_b_ub n k Rmax)"
    unfolding lp_problem_def Let_def n_def[symmetric] k_def[symmetric]
    by (simp only: tm bt ms iv s1 s2 s3 s4 rbind_Inr)
  then show ?thesis by (simp add: n_def k_def Tpi_def Tnotpi_def)
qed

lemma list_all2_chunksD:
  assumes all: "list_all2 P (concat (map F js)) (replicate (length js * n) z)"
    and len: "\<And>j. j \<in> set js \<Longrightarrow> length (F j) = n"
    and p: "p < length js" and i: "i < n"
  shows "P (F (js ! p) ! i) z"
proof -
  have lt: "p * n + i < length js * n" using p i by (rule chunk_index_less)
  have "length (concat (map F js)) = length js * n"
    by (rule length_concat_chunks) (rule len)
  then have "P (concat (map F js) ! (p * n + i)) (replicate (length js * n) z ! (p * n + i))"
    using all lt by (simp add: list_all2_conv_all_nth)
  then show ?thesis using lt concat_chunk_nth[of js F n p i] len p i by simp
qed

lemma dot_pad2:
  assumes "length u + length w \<le> length x"
  shows "dot (u @ w @ replicate m 0) x = dot (u @ w) x"
  using dot_pad[of "u @ w" x m] assms by simp

lemma advantage_take: "advantage n Tpi Tn Tinv (take n x) i = advantage n Tpi Tn Tinv x i"
  unfolding advantage_def sum_list_upt
  by (intro sum.cong refl arg_cong2[where f="(*)"]) simp

lemma length_stage_rows [simp]:
  "length (stage1_rows n k Tpi Tnotpi Tinv) = (k - 1) * n"
  "length (stage2_rows n k Tpi Tnotpi Tinv) = (k - 1) * n"
  "length (stage3_rows n) = n"
  "length (stage4_rows n) = 2 * n"
proof -
  have "length (stage1_rows n k Tpi Tnotpi Tinv) = length [0..<k - 1] * n"
    unfolding stage1_rows_def by (rule length_concat_chunks) simp
  then show "length (stage1_rows n k Tpi Tnotpi Tinv) = (k - 1) * n" by simp
  have "length (stage2_rows n k Tpi Tnotpi Tinv) = length [0..<k - 1] * n"
    unfolding stage2_rows_def by (rule length_concat_chunks) (simp add: margin_rows_def)
  then show "length (stage2_rows n k Tpi Tnotpi Tinv) = (k - 1) * n" by simp
  show "length (stage3_rows n) = n" by (simp add: stage3_rows_def)
  have "length (stage4_rows n) = length [0..<n] * 2"
    unfolding stage4_rows_def by (rule length_concat_chunks) simp
  then show "length (stage4_rows n) = 2 * n" by simp
qed

lemma length_pad [simp]: "length (pad n rs) = length rs"
  by (simp add: pad_def)

lemma pad_append: "pad n (rs @ ts) = pad n rs @ pad n ts"
  by (simp add: pad_def)

lemma nrows_spec_A_ub:
  "nrows (spec_A_ub n k Tpi Tnotpi Tinv) = (k - 1) * n + (k - 1) * n + n + 2 * n"
  by (simp add: spec_A_ub_def nrows_def)

lemma length_spec_b_ub: "length (spec_b_ub n k Rmax) = (k - 1) * n + (k - 1) * n + n + 2 * n"
  by (simp add: spec_b_ub_def)

lemma length_spec_c: "length (spec_c mem n l1) = 3 * n"
  by (simp add: spec_c_def)

lemma set_concat_chunks:
  assumes "r \<in> set (concat (map F js))"
  obtains j where "j \<in> set js" and "r \<in> set (F j)"
  using assms by auto

lemma wf_spec_A_ub: "wf_array (spec_A_ub n k Tpi Tnotpi Tinv)"
proof -
  have r1: "length r = n" if "r \<in> set (stage1_rows n k Tpi Tnotpi Tinv)" for r
    using that by (auto simp: stage1_rows_def spec_block_def)
  have r2: "length r = n + n" if "r \<in> set (stage2_rows n k Tpi Tnotpi Tinv)" for r
    using that by (auto simp: stage2_rows_def margin_rows_def spec_block_def unit_row_def)
  have r3: "length r = n + n" if "r \<in> set (stage3_rows n)" for r
    using that by (auto simp: stage3_rows_def bound_row_def)
  have r4: "length r = n + n + n" if "r \<in> set (stage4_rows n)" for r
    using that by (auto simp: stage4_rows_def neg_row_def abs_row_def)
  show ?thesis
    unfolding wf_array_def list_all_iff spec_A_ub_def
    using r1 r2 r3 r4 by (auto simp: pad_def)
qed

lemma feasible_spec_lp:
  assumes fx: "feasible (spec_A_ub n k Tpi Tnotpi Tinv) (spec_b_ub n k Rmax) x"
  shows "(\<forall>idx < k - 1. \<forall>i < n. 0 \<le> advantage n Tpi (Tnotpi ! idx) Tinv (take n x) i) \<and>
         (\<forall>idx < k - 1. \<forall>i < n. x ! (n + i) \<le> advantage n Tpi (Tnotpi ! idx) Tinv (take n x) i) \<and>
         (\<forall>i < n. x ! i \<le> Rmax) \<and>
         (\<forall>i < n. 0 \<le> x ! i \<and> x ! i \<le> x ! (n + n + i))"
proof -
  let ?P = "\<lambda>r bi. dot r x \<le> bi"
  have lx: "length x = n + n + n" using fx by (simp add: feasible_def spec_A_ub_def)
  have all: "list_all2 ?P
      (pad n (pad n (stage1_rows n k Tpi Tnotpi Tinv)) @ pad n (stage2_rows n k Tpi Tnotpi Tinv) @
       pad n (stage3_rows n) @ stage4_rows n)
      (replicate ((k - 1) * n) 0 @ replicate ((k - 1) * n) 0 @ replicate n Rmax @ replicate (2 * n) 0)"
    using fx by (simp add: feasible_def spec_A_ub_def spec_b_ub_def pad_append)
  have a1: "list_all2 ?P (pad n (pad n (stage1_rows n k Tpi Tnotpi Tinv))) (replicate ((k - 1) * n) 0)"
    and rest1: "list_all2 ?P (pad n (stage2_rows n k Tpi Tnotpi Tinv) @
       pad n (stage3_rows n) @ stage4_rows n)
      (replicate ((k - 1) * n) 0 @ replicate n Rmax @ replicate (2 * n) 0)"
    using all by (simp_all add: list_all2_append)
  have a2: "list_all2 ?P (pad n (stage2_rows n k Tpi Tnotpi Tinv)) (replicate ((k - 1) * n) 0)"
    and rest2: "list_all2 ?P (pad n (stage3_rows n) @ stage4_rows n)
      (replicate n Rmax @ replicate (2 * n) 0)"
    using rest1 by (simp_all add: list_all2_append)
  have a3: "list_all2 ?P (pad n (stage3_rows n)) (replicate n Rmax)"
    and a4: "list_all2 ?P (stage4_rows n) (replicate (2 * n) 0)"
    using rest2 by (simp_all add: list_all2_append)
  have c1: "0 \<le> advantage n Tpi (Tnotpi ! idx) Tinv (take n x) i"
    if idx: "idx < k - 1" and i: "i < n" for idx i
  proof -
    have "list_all2 (\<lambda>r bi. dot (r @ replicate n 0 @ replicate n 0) x \<le> bi)
        (concat (map (\<lambda>idx. spec_block n Tpi (Tnotpi ! idx) Tinv) [0..<k - 1]))
        (replicate (length [0..<k - 1] * n) 0)"
      using a1 by (simp add: pad_def stage1_rows_def list_all2_map1)
    then have "dot (spec_block n Tpi (Tnotpi ! ([0..<k - 1] ! idx)) Tinv ! i @
        replicate n 0 @ replicate n 0) x \<le> 0"
      using idx i by (intro list_all2_chunksD[where P="\<lambda>r bi. dot (r @ replicate n 0 @ replicate n 0) x \<le> bi"]) simp_all
    then have "dot (spec_block n Tpi (Tnotpi ! idx) Tinv ! i) x \<le> 0"
      using idx i lx
      by (simp add: dot_pad[of _ x "n + n", unfolded replicate_add] length_spec_block_row)
    then show ?thesis using i lx by (simp add: dot_spec_block advantage_take)
  qed
  have c2: "x ! (n + i) \<le> advantage n Tpi (Tnotpi ! idx) Tinv (take n x) i"
    if idx: "idx < k - 1" and i: "i < n" for idx i
  proof -
    have "list_all2 (\<lambda>r bi. dot (r @ replicate n 0) x \<le> bi)
        (concat (map (\<lambda>idx. margin_rows n (spec_block n Tpi (Tnotpi ! idx) Tinv)) [0..<k - 1]))
        (replicate (length [0..<k - 1] * n) 0)"
      using a2 by (simp add: pad_def stage2_rows_def list_all2_map1)
    then have "dot (margin_rows n (spec_block n Tpi (Tnotpi ! ([0..<k - 1] ! idx)) Tinv) ! i @
        replicate n 0) x \<le> 0"
      using idx i by (intro list_all2_chunksD[where P="\<lambda>r bi. dot (r @ replicate n 0) x \<le> bi"])
        (simp_all add: margin_rows_def)
    then have "dot (spec_block n Tpi (Tnotpi ! idx) Tinv ! i @ unit_row n i) x \<le> 0"
      using idx i lx
      by (simp add: margin_rows_def dot_pad2 length_spec_block_row unit_row_def)
    then have "dot (spec_block n Tpi (Tnotpi ! idx) Tinv ! i) x + dot (unit_row n i) (drop n x) \<le> 0"
      using i lx by (simp add: dot_append length_spec_block_row)
    then show ?thesis using i lx by (simp add: dot_spec_block dot_unit_row advantage_take)
  qed
  have c3: "x ! i \<le> Rmax" if i: "i < n" for i
  proof -
    have "?P (pad n (stage3_rows n) ! i) (replicate n Rmax ! i)"
      using a3 i by (simp add: list_all2_conv_all_nth)
    then have "dot (bound_row (n + n) i @ replicate n 0) x \<le> Rmax"
      using i by (simp add: pad_def stage3_rows_def)
    then show ?thesis using i lx by (simp add: dot_pad bound_row_def dot_bound_row[unfolded bound_row_def])
  qed
  have c4: "0 \<le> x ! i \<and> x ! i \<le> x ! (n + n + i)" if i: "i < n" for i
  proof -
    let ?F = "\<lambda>i. [neg_row (n + n + n) i, abs_row (n + n + n) i (n + n + i)]"
    have all4: "list_all2 ?P (concat (map ?F [0..<n])) (replicate (length [0..<n] * 2) 0)"
      using a4 by (simp add: stage4_rows_def mult.commute)
    have lenF: "\<And>j. j \<in> set [0..<n] \<Longrightarrow> length (?F j) = 2" by simp
    have pi: "i < length [0..<n]" using i by simp
    have "?P (?F ([0..<n] ! i) ! 0) 0"
      by (rule list_all2_chunksD[of ?P ?F "[0..<n]" 2 0 i 0, OF all4 lenF pi]) simp_all
    then have "dot (neg_row (n + n + n) i) x \<le> 0" using i by simp
    then have nonneg: "0 \<le> x ! i" using i lx by (simp add: dot_neg_row)
    have "?P (?F ([0..<n] ! i) ! 1) 0"
      by (rule list_all2_chunksD[of ?P ?F "[0..<n]" 2 0 i 1, OF all4 lenF pi]) simp_all
    then have "dot (abs_row (n + n + n) i (n + n + i)) x \<le> 0" using i by simp
    then have "x ! i \<le> x ! (n + n + i)" using i lx by (simp add: dot_abs_row)
    with nonneg show ?thesis by simp
  qed
  show ?thesis using c1 c2 c3 c4 by blast
qed

text \<open>
  Claim C3. Given \<open>c\<close> of length \<open>n\<close> and \<open>A_ub\<close> with \<open>n\<close> columns, the second stage
  appends \<open>n\<close> coefficients \<open>-1\<close> to \<open>c\<close>, pads every existing row of \<open>A_ub\<close> with \<open>n\<close>
  zeros, and for \<open>idx = 0..k-2\<close> appends \<open>n\<close> rows: row \<open>i\<close> is row \<open>i\<close> of
  \<open>-(Tpi - Tnotpi[idx]) @ T_disc_inv\<close> followed by row \<open>i\<close> of the identity, with right-hand
  side \<open>0\<close>. Every feasible point satisfies \<open>x[n + s] \<le>\<close> the advantage of the policy action
  over the \<open>idx\<close>-th alternative at state \<open>s\<close>.
\<close>

theorem add_costly_single_step_constraints_margin:
  assumes Tpi: "square n Tpi" and len: "length Tnotpi = k - 1"
    and Tn: "list_all (square n) Tnotpi" and Tinv: "square n T_disc_inv"
    and A: "ncols A_ub = n" and c: "length c = n" and b: "length b_ub = nrows A_ub"
  shows "let c' = c @ replicate n (- 1);
             A_ub' = \<lparr>ncols = n + n,
                       rows = map (\<lambda>r. r @ replicate n 0) (rows A_ub) @
                         concat (map (\<lambda>idx.
                           map (\<lambda>i. spec_block n Tpi (Tnotpi ! idx) T_disc_inv ! i @ unit_row n i)
                             [0..<n]) [0..<k - 1])\<rparr>;
             b_ub' = b_ub @ replicate ((k - 1) * n) 0
         in add_costly_single_step_constraints n k Tpi Tnotpi T_disc_inv (c, A_ub, b_ub) =
              Inr (c', A_ub', b_ub') \<and>
            nrows A_ub' = nrows A_ub + (k - 1) * n \<and> ncols A_ub' = ncols A_ub + n \<and>
            length b_ub' = nrows A_ub' \<and>
            (\<forall>x. feasible A_ub' b_ub' x \<longrightarrow>
               (\<forall>idx < k - 1. \<forall>s < n.
                  x ! (n + s) \<le> advantage n Tpi (Tnotpi ! idx) T_disc_inv (take n x) s))"
proof -
  define margins where "margins = concat (map (\<lambda>idx.
      margin_rows n (spec_block n Tpi (Tnotpi ! idx) T_disc_inv)) [0..<k - 1])"
  define A_ub' where "A_ub' = \<lparr>ncols = n + n, rows = pad n (rows A_ub) @ margins\<rparr>"
  define b_ub' where "b_ub' = b_ub @ replicate ((k - 1) * n) 0"
  have sqTn: "square n (Tnotpi ! i)" if "i < k - 1" for i
    using Tn len that by (simp add: list_all_length)
  have stage: "add_costly_single_step_constraints n k Tpi Tnotpi T_disc_inv (c, A_ub, b_ub) =
      Inr (c @ replicate n (- 1), A_ub', b_ub')"
    unfolding A_ub'_def b_ub'_def margins_def
    using Tpi len sqTn Tinv A c by (rule add_costly_single_step_constraints_spec)
  have "length margins = length [0..<k - 1] * n"
    unfolding margins_def by (rule length_concat_chunks) (simp add: margin_rows_def)
  then have lenm: "length margins = (k - 1) * n" by simp
  have feas: "x ! (n + s) \<le> advantage n Tpi (Tnotpi ! idx) T_disc_inv (take n x) s"
    if fx: "feasible A_ub' b_ub' x" and idx: "idx < k - 1" and s: "s < n" for x idx s
  proof -
    let ?P = "\<lambda>r bi. dot r x \<le> bi"
    let ?F = "\<lambda>idx. margin_rows n (spec_block n Tpi (Tnotpi ! idx) T_disc_inv)"
    have lx: "length x = n + n" using fx by (simp add: feasible_def A_ub'_def)
    have "list_all2 ?P (pad n (rows A_ub) @ margins) (b_ub @ replicate ((k - 1) * n) 0)"
      using fx by (simp add: feasible_def A_ub'_def b_ub'_def)
    then have "list_all2 ?P margins (replicate ((k - 1) * n) 0)"
      using b by (simp add: list_all2_append nrows_def)
    then have all: "list_all2 ?P (concat (map ?F [0..<k - 1])) (replicate (length [0..<k - 1] * n) 0)"
      by (simp add: margins_def)
    have lenF: "\<And>j. j \<in> set [0..<k - 1] \<Longrightarrow> length (?F j) = n" by (simp add: margin_rows_def)
    have p: "idx < length [0..<k - 1]" using idx by simp
    have "?P (?F ([0..<k - 1] ! idx) ! s) 0"
      by (rule list_all2_chunksD[of ?P ?F "[0..<k - 1]" n 0 idx s, OF all lenF p s])
    then have "dot (spec_block n Tpi (Tnotpi ! idx) T_disc_inv ! s @ unit_row n s) x \<le> 0"
      using idx s by (simp add: margin_rows_def)
    then have "dot (spec_block n Tpi (Tnotpi ! idx) T_disc_inv ! s) x +
        dot (unit_row n s) (drop n x) \<le> 0"
      using s lx by (simp add: dot_append length_spec_block_row)
    then show ?thesis using s lx by (simp add: dot_spec_block dot_unit_row advantage_take)
  qed
  have "nrows A_ub' = nrows A_ub + (k - 1) * n" "ncols A_ub' = ncols A_ub + n"
    "length b_ub' = nrows A_ub'"
    using A b by (simp_all add: A_ub'_def b_ub'_def nrows_def lenm)
  then show ?thesis
    using stage feas
    unfolding Let_def A_ub'_def b_ub'_def margins_def margin_rows_def pad_def
    by blast
qed

theorem add_costly_single_step_constraints_margin_witness:
  "square 2 \<lparr>ncols = 2, rows = [[2/5, 3/5], [1, 0]]\<rparr> \<and>
   list_all (square 2) [\<lparr>ncols = 2, rows = [[9/10, 1/10], [1, 0]]\<rparr>] \<and>
   square 2 demo_Tinv \<and>
   add_costly_single_step_constraints 2 2
     \<lparr>ncols = 2, rows = [[2/5, 3/5], [1, 0]]\<rparr> [\<lparr>ncols = 2, rows = [[9/10, 1/10], [1, 0]]\<rparr>]
     demo_Tinv ([0, 0], \<lparr>ncols = 2, rows = [[25/77, - 25/77], [0, 0]]\<rparr>, [0, 0]) =
     Inr ([0, 0, - 1, - 1],
          \<lparr>ncols = 4, rows = [[25/77, - 25/77, 0, 0], [0, 0, 0, 0],
                              [25/77, - 25/77, 1, 0], [0, 0, 0, 1]]\<rparr>,
          [0, 0, 0, 0])"
proof -
  have sq1: "square 2 \<lparr>ncols = 2, rows = [[2/5, 3/5], [1, 0]]\<rparr>"
    and sq2: "list_all (square 2) [\<lparr>ncols = 2, rows = [[9/10, 1/10], [1, 0]]\<rparr>]"
    by (simp_all add: square_def nrows_def wf_array_def)
  have len: "length [\<lparr>ncols = 2, rows = [[9/10, 1/10], [1, 0::real]]\<rparr>] = 2 - 1" by simp
  have A: "ncols \<lparr>ncols = 2, rows = [[25/77, - 25/77], [0, 0]]\<rparr> = 2"
    and c: "length [0, 0::real] = 2"
    and b: "length [0, 0::real] = nrows \<lparr>ncols = 2, rows = [[25/77, - 25/77], [0, 0]]\<rparr>"
    by (simp_all add: nrows_def)
  from add_costly_single_step_constraints_margin[OF sq1 len sq2 demo_square_Tinv A c b]
  show ?thesis
    using sq1 sq2 demo_square_Tinv
    by (simp add: Let_def upt_1 upt_2 demo_block replicate_2 unit_row_def)
qed

text \<open>
  Claim C4. Given \<open>c\<close> of length \<open>m\<close> and \<open>A_ub\<close> with \<open>m \<ge> n\<close> columns, the fourth stage
  appends \<open>n\<close> coefficients \<open>l1\<close> to \<open>c\<close>, pads every existing row of \<open>A_ub\<close> with \<open>n\<close> zeros,
  and for \<open>i = 0..n-1\<close> appends the row with \<open>-1\<close> in column \<open>i\<close> and the row with \<open>1\<close> in
  column \<open>i\<close> and \<open>-1\<close> in column \<open>m + i\<close>, both with right-hand side \<open>0\<close>. Every feasible
  point therefore has \<open>0 \<le> x[i] \<le> x[m + i]\<close> for every reward variable \<open>i\<close>.
\<close>

theorem add_l1norm_constraints_nonneg:
  assumes A: "ncols A_ub = m" and c: "length c = m" and n: "n \<le> m"
    and b: "length b_ub = nrows A_ub"
  shows "let c' = c @ replicate n l1;
             A_ub' = \<lparr>ncols = m + n,
                       rows = map (\<lambda>r. r @ replicate n 0) (rows A_ub) @
                         concat (map (\<lambda>i. [(replicate (m + n) 0)[i := - 1],
                                            (replicate (m + n) 0)[i := 1, m + i := - 1]])
                                   [0..<n])\<rparr>;
             b_ub' = b_ub @ replicate (2 * n) 0
         in add_l1norm_constraints n l1 (c, A_ub, b_ub) = Inr (c', A_ub', b_ub') \<and>
            nrows A_ub' = nrows A_ub + 2 * n \<and> ncols A_ub' = ncols A_ub + n \<and>
            length b_ub' = nrows A_ub' \<and>
            (\<forall>x. feasible A_ub' b_ub' x \<longrightarrow> (\<forall>i < n. 0 \<le> x ! i \<and> x ! i \<le> x ! (m + i)))"
proof -
  let ?F = "\<lambda>i. [neg_row (m + n) i, abs_row (m + n) i (m + i)]"
  define A_ub' where "A_ub' = \<lparr>ncols = m + n, rows = pad n (rows A_ub) @ concat (map ?F [0..<n])\<rparr>"
  define b_ub' where "b_ub' = b_ub @ replicate (2 * n) 0"
  have stage: "add_l1norm_constraints n l1 (c, A_ub, b_ub) = Inr (c @ replicate n l1, A_ub', b_ub')"
    unfolding A_ub'_def b_ub'_def using A c n by (rule add_l1norm_constraints_spec)
  have "length (concat (map ?F [0..<n])) = length [0..<n] * 2"
    by (rule length_concat_chunks) simp
  then have len4: "length (concat (map ?F [0..<n])) = 2 * n" by simp
  have feas: "0 \<le> x ! i \<and> x ! i \<le> x ! (m + i)"
    if fx: "feasible A_ub' b_ub' x" and i: "i < n" for x i
  proof -
    let ?P = "\<lambda>r bi. dot r x \<le> bi"
    have lx: "length x = m + n" using fx by (simp add: feasible_def A_ub'_def)
    have "list_all2 ?P (pad n (rows A_ub) @ concat (map ?F [0..<n])) (b_ub @ replicate (2 * n) 0)"
      using fx by (simp add: feasible_def A_ub'_def b_ub'_def)
    then have "list_all2 ?P (concat (map ?F [0..<n])) (replicate (2 * n) 0)"
      using b by (simp add: list_all2_append nrows_def)
    then have all4: "list_all2 ?P (concat (map ?F [0..<n])) (replicate (length [0..<n] * 2) 0)"
      by (simp add: mult.commute)
    have lenF: "\<And>j. j \<in> set [0..<n] \<Longrightarrow> length (?F j) = 2" by simp
    have p: "i < length [0..<n]" using i by simp
    have "?P (?F ([0..<n] ! i) ! 0) 0"
      by (rule list_all2_chunksD[of ?P ?F "[0..<n]" 2 0 i 0, OF all4 lenF p]) simp_all
    then have "dot (neg_row (m + n) i) x \<le> 0" using i by simp
    then have nonneg: "0 \<le> x ! i" using i n lx by (simp add: dot_neg_row)
    have "?P (?F ([0..<n] ! i) ! 1) 0"
      by (rule list_all2_chunksD[of ?P ?F "[0..<n]" 2 0 i 1, OF all4 lenF p]) simp_all
    then have "dot (abs_row (m + n) i (m + i)) x \<le> 0" using i by simp
    then have "x ! i \<le> x ! (m + i)" using i n lx by (simp add: dot_abs_row)
    with nonneg show ?thesis by simp
  qed
  have "nrows A_ub' = nrows A_ub + 2 * n" "ncols A_ub' = ncols A_ub + n"
    "length b_ub' = nrows A_ub'"
    using A b by (simp_all add: A_ub'_def b_ub'_def nrows_def len4)
  then show ?thesis
    using stage feas
    unfolding Let_def A_ub'_def b_ub'_def pad_def neg_row_def abs_row_def
    by blast
qed

theorem add_l1norm_constraints_nonneg_witness:
  "(2::nat) \<le> 4 \<and>
   add_l1norm_constraints 2 10 ([0, 0, - 1, - 1], \<lparr>ncols = 4, rows = [[1, 0, 0, 0]]\<rparr>, [2]) =
     Inr ([0, 0, - 1, - 1, 10, 10],
          \<lparr>ncols = 6, rows = [[1, 0, 0, 0, 0, 0],
                              [- 1, 0, 0, 0, 0, 0], [1, 0, 0, 0, - 1, 0],
                              [0, - 1, 0, 0, 0, 0], [0, 1, 0, 0, 0, - 1]]\<rparr>,
          [2, 0, 0, 0, 0])"
proof -
  have A: "ncols \<lparr>ncols = 4, rows = [[1, 0, 0, 0]]\<rparr> = 4"
    and c: "length [0, 0, - 1, - 1::real] = 4" and n: "(2::nat) \<le> 4"
    and b: "length [2::real] = nrows \<lparr>ncols = 4, rows = [[1, 0, 0, 0]]\<rparr>"
    by (simp_all add: nrows_def)
  from add_l1norm_constraints_nonneg[OF A c n b, of 10]
  show ?thesis
    by (simp add: Let_def eval_nat_numeral)
qed

lemma demo_inv2:
  "inv2 (discount_matrix (length demo_S) (9/10) (spec_Tpi demo_S demo_A demo_T demo_pi)) =
     Inr demo_Tinv"
  by (simp add: demo_lengths demo_spec_Tpi discount_matrix_def entry_def upt_2 inv2_def
      demo_Tinv_def)

text \<open>
  Claim C5. For well-shaped inputs on which \<^verbatim>\<open>np.linalg.inv\<close> returns an \<open>n\<close>-by-\<open>n\<close>
  array, the four stages compose without error. The result has
  \<open>(k-1)*n + (k-1)*n + n + 2*n\<close> rows and \<open>3*n\<close> columns in every row, \<open>b_ub\<close> has as many
  entries as \<open>A_ub\<close> has rows and \<open>c\<close> has \<open>3*n\<close> entries. The columns are laid out as the
  \<open>n\<close> reward variables (objective coefficients left as \<^verbatim>\<open>np.empty\<close> allocated them),
  then the \<open>n\<close> margin variables (coefficient \<open>-1\<close>), then the \<open>n\<close> absolute-value
  surrogates (coefficient \<open>l1\<close>): every feasible point has \<open>0 \<le> x[i] \<le> Rmax\<close> and
  \<open>x[i] \<le> x[2n + i]\<close> for \<open>i < n\<close>, and \<open>x[n + i]\<close> is bounded by every advantage at
  state \<open>i\<close>.
\<close>

theorem lp_problem_shape:
  assumes ws: "well_shaped S A T policy"
    and inv: "np_inv (discount_matrix (length S) gamma (spec_Tpi S A T policy)) = Inr Tinv"
    and Tinv: "square (length S) Tinv"
  shows "let n = length S; k = length A;
             Tpi = spec_Tpi S A T policy;
             Tnotpi = map (spec_Tnotpi S A T policy) [0..<k - 1];
             c = spec_c mem n l1;
             A_ub = spec_A_ub n k Tpi Tnotpi Tinv;
             b_ub = spec_b_ub n k Rmax
         in lp_problem mem np_inv S A T gamma policy l1 Rmax = Inr (c, A_ub, b_ub) \<and>
            nrows A_ub = (k - 1) * n + (k - 1) * n + n + 2 * n \<and>
            ncols A_ub = 3 * n \<and> wf_array A_ub \<and>
            length b_ub = nrows A_ub \<and> length c = 3 * n \<and>
            take n c = map mem [0..<n] \<and>
            take n (drop n c) = replicate n (- 1) \<and>
            drop (2 * n) c = replicate n l1 \<and>
            (\<forall>x. feasible A_ub b_ub x \<longrightarrow>
               (\<forall>i < n. 0 \<le> x ! i \<and> x ! i \<le> Rmax \<and> x ! i \<le> x ! (2 * n + i)) \<and>
               (\<forall>idx < k - 1. \<forall>i < n.
                  x ! (n + i) \<le> advantage n Tpi (Tnotpi ! idx) Tinv (take n x) i))"
proof -
  define n where "n = length S"
  define k where "k = length A"
  define Tpi where "Tpi = spec_Tpi S A T policy"
  define Tnotpi where "Tnotpi = map (spec_Tnotpi S A T policy) [0..<k - 1]"
  have lp: "lp_problem mem np_inv S A T gamma policy l1 Rmax =
      Inr (spec_c mem n l1, spec_A_ub n k Tpi Tnotpi Tinv, spec_b_ub n k Rmax)"
    unfolding n_def k_def Tpi_def Tnotpi_def using ws inv Tinv by (rule lp_problem_spec)
  have dims: "nrows (spec_A_ub n k Tpi Tnotpi Tinv) = (k - 1) * n + (k - 1) * n + n + 2 * n"
    "ncols (spec_A_ub n k Tpi Tnotpi Tinv) = 3 * n"
    "wf_array (spec_A_ub n k Tpi Tnotpi Tinv)"
    "length (spec_b_ub n k Rmax) = nrows (spec_A_ub n k Tpi Tnotpi Tinv)"
    "length (spec_c mem n l1) = 3 * n"
    by (simp_all add: nrows_spec_A_ub length_spec_b_ub length_spec_c wf_spec_A_ub)
      (simp add: spec_A_ub_def)
  have cs: "take n (spec_c mem n l1) = map mem [0..<n]"
    "take n (drop n (spec_c mem n l1)) = replicate n (- 1)"
    "drop (2 * n) (spec_c mem n l1) = replicate n l1"
    by (simp_all add: spec_c_def)
  have feas: "(\<forall>i < n. 0 \<le> x ! i \<and> x ! i \<le> Rmax \<and> x ! i \<le> x ! (2 * n + i)) \<and>
      (\<forall>idx < k - 1. \<forall>i < n. x ! (n + i) \<le> advantage n Tpi (Tnotpi ! idx) Tinv (take n x) i)"
    if "feasible (spec_A_ub n k Tpi Tnotpi Tinv) (spec_b_ub n k Rmax) x" for x
    using feasible_spec_lp[OF that] by (simp add: mult_2)
  show ?thesis
    using lp dims cs feas
    unfolding Let_def n_def[symmetric] k_def[symmetric] Tpi_def[symmetric] Tnotpi_def[symmetric]
    by blast
qed

theorem lp_problem_shape_witness:
  "well_shaped demo_S demo_A demo_T demo_pi \<and>
   inv2 (discount_matrix (length demo_S) (9/10) (spec_Tpi demo_S demo_A demo_T demo_pi)) =
     Inr demo_Tinv \<and>
   square (length demo_S) demo_Tinv \<and>
   map_sum id (\<lambda>(c, A_ub, b_ub). (length c, nrows A_ub, ncols A_ub, length b_ub))
     (lp_problem (\<lambda>i. 0) inv2 demo_S demo_A demo_T (9/10) demo_pi 10 2) = Inr (6, 10, 6, 10)"
proof -
  have sq: "square (length demo_S) demo_Tinv"
    using demo_square_Tinv by (simp add: demo_lengths)
  from lp_problem_shape[of demo_S demo_A demo_T demo_pi inv2 "9/10" demo_Tinv "\<lambda>i. 0" 10 2,
      OF demo_well_shaped demo_inv2 sq]
  show ?thesis
    using demo_well_shaped demo_inv2 sq
    by (simp add: Let_def demo_lengths)
qed

subsection \<open>The solve step\<close>

lemma demo_lp_problem:
  "lp_problem mem inv2 demo_S demo_A demo_T (9/10) demo_pi l1 Rmax =
   Inr (spec_c mem 2 l1,
        spec_A_ub 2 2 \<lparr>ncols = 2, rows = [[2/5, 3/5], [1, 0]]\<rparr>
          [\<lparr>ncols = 2, rows = [[9/10, 1/10], [1, 0]]\<rparr>] demo_Tinv,
        spec_b_ub 2 2 Rmax)"
proof -
  have sq: "square (length demo_S) demo_Tinv"
    using demo_square_Tinv by (simp add: demo_lengths)
  from lp_problem_spec[of demo_S demo_A demo_T demo_pi inv2 "9/10" demo_Tinv mem l1 Rmax,
      OF demo_well_shaped demo_inv2 sq]
  show ?thesis
    by (simp add: demo_lengths upt_1 demo_spec_Tpi demo_spec_Tnotpi)
qed

lemma demo_infeasible:
  "\<not> feasible (spec_A_ub 2 2 \<lparr>ncols = 2, rows = [[2/5, 3/5], [1, 0]]\<rparr>
          [\<lparr>ncols = 2, rows = [[9/10, 1/10], [1, 0]]\<rparr>] demo_Tinv) (spec_b_ub 2 2 (- 1)) x"
proof
  assume "feasible (spec_A_ub 2 2 \<lparr>ncols = 2, rows = [[2/5, 3/5], [1, 0]]\<rparr>
          [\<lparr>ncols = 2, rows = [[9/10, 1/10], [1, 0]]\<rparr>] demo_Tinv) (spec_b_ub 2 2 (- 1)) x"
  from feasible_spec_lp[OF this] have "0 \<le> x ! 0" "x ! 0 \<le> - 1" by simp_all
  then show False by simp
qed





text \<open>
  Claim C9 fails on the code. The first \<open>n\<close> objective coefficients are never written: they
  are whatever \<^verbatim>\<open>np.empty(shape=[1, n])\<close> found in memory. Two calls with the same
  arguments, one finding zeros and one finding sevens, assemble different objectives.
\<close>

theorem lp_problem_uninitialised_objective:
  "map_sum id fst (lp_problem (\<lambda>i. 0) inv2 demo_S demo_A demo_T (9/10) demo_pi 10 2) =
     Inr [0, 0, - 1, - 1, 10, 10] \<and>
   map_sum id fst (lp_problem (\<lambda>i. 7) inv2 demo_S demo_A demo_T (9/10) demo_pi 10 2) =
     Inr [7, 7, - 1, - 1, 10, 10]"
  by (simp add: demo_lp_problem spec_c_def upt_2 replicate_2)

subsection \<open>The recovered reward makes the policy optimal\<close>










lemma finite_values_Fin [simp]: "finite_values (map Fin R) = Some R"
proof -
  have "map ((\<lambda>v. case v of Fin r \<Rightarrow> r | _ \<Rightarrow> 0) \<circ> Fin) R = R"
    by (induction R) simp_all
  then show ?thesis by (simp add: finite_values_def list_all_iff)
qed




lemma demo_A_ub:
  "spec_A_ub 2 2 \<lparr>ncols = 2, rows = [[2/5, 3/5], [1, 0]]\<rparr>
          [\<lparr>ncols = 2, rows = [[9/10, 1/10], [1, 0]]\<rparr>] demo_Tinv =
   \<lparr>ncols = 6,
      rows = [[25/77, - 25/77, 0, 0, 0, 0], [0, 0, 0, 0, 0, 0],
              [25/77, - 25/77, 1, 0, 0, 0], [0, 0, 0, 1, 0, 0],
              [1, 0, 0, 0, 0, 0], [0, 1, 0, 0, 0, 0],
              [- 1, 0, 0, 0, 0, 0], [1, 0, 0, 0, - 1, 0],
              [0, - 1, 0, 0, 0, 0], [0, 1, 0, 0, 0, - 1]]\<rparr>"
proof -
  have s1: "stage1_rows 2 2 \<lparr>ncols = 2, rows = [[2/5, 3/5], [1, 0]]\<rparr>
          [\<lparr>ncols = 2, rows = [[9/10, 1/10], [1, 0]]\<rparr>] demo_Tinv = [[25/77, - 25/77], [0, 0]]"
    by (simp add: stage1_rows_def upt_1 demo_block)
  have s2: "stage2_rows 2 2 \<lparr>ncols = 2, rows = [[2/5, 3/5], [1, 0]]\<rparr>
          [\<lparr>ncols = 2, rows = [[9/10, 1/10], [1, 0]]\<rparr>] demo_Tinv =
        [[25/77, - 25/77, 1, 0], [0, 0, 0, 1]]"
    by (simp add: stage2_rows_def margin_rows_def upt_1 upt_2 demo_block unit_row_def)
  have s3: "stage3_rows 2 = [[1, 0, 0, 0], [0, 1, 0, 0]]"
    by (simp add: stage3_rows_def bound_row_def eval_nat_numeral)
  have s4: "stage4_rows 2 = [[- 1, 0, 0, 0, 0, 0], [1, 0, 0, 0, - 1, 0],
                            [0, - 1, 0, 0, 0, 0], [0, 1, 0, 0, 0, - 1]]"
    by (simp add: stage4_rows_def neg_row_def abs_row_def eval_nat_numeral)
  show ?thesis
    by (simp add: spec_A_ub_def s1 s2 s3 s4 pad_def replicate_2)
qed

lemma demo_b_ub: "spec_b_ub 2 2 Rmax = [0, 0, 0, 0, Rmax, Rmax, 0, 0, 0, 0]"
  by (simp add: spec_b_ub_def eval_nat_numeral)

lemma demo_c: "spec_c mem 2 l1 = [mem 0, mem 1, - 1, - 1, l1, l1]"
  by (simp add: spec_c_def upt_2 replicate_2)

text \<open>On the demo input with zero objective coefficients for the rewards, the zero
  vector is feasible and no feasible point has a smaller objective value. (The default
  bounds \<open>x \<ge> 0\<close> of \<^verbatim>\<open>linprog\<close> only remove other feasible points.)\<close>

lemma demo_zero_optimal:
  "feasible (spec_A_ub 2 2 \<lparr>ncols = 2, rows = [[2/5, 3/5], [1, 0]]\<rparr>
          [\<lparr>ncols = 2, rows = [[9/10, 1/10], [1, 0]]\<rparr>] demo_Tinv) (spec_b_ub 2 2 2)
      [0, 0, 0, 0, 0, 0] \<and>
   (\<forall>y. feasible (spec_A_ub 2 2 \<lparr>ncols = 2, rows = [[2/5, 3/5], [1, 0]]\<rparr>
          [\<lparr>ncols = 2, rows = [[9/10, 1/10], [1, 0]]\<rparr>] demo_Tinv) (spec_b_ub 2 2 2) y \<longrightarrow>
        dot (spec_c (\<lambda>i. 0) 2 10) [0, 0, 0, 0, 0, 0] \<le> dot (spec_c (\<lambda>i. 0) 2 10) y)"
proof (intro conjI allI impI)
  show "feasible (spec_A_ub 2 2 \<lparr>ncols = 2, rows = [[2/5, 3/5], [1, 0]]\<rparr>
          [\<lparr>ncols = 2, rows = [[9/10, 1/10], [1, 0]]\<rparr>] demo_Tinv) (spec_b_ub 2 2 2)
      [0, 0, 0, 0, 0, 0]"
    by (simp add: demo_A_ub demo_b_ub feasible_def dot_def)
next
  fix y
  assume "feasible (spec_A_ub 2 2 \<lparr>ncols = 2, rows = [[2/5, 3/5], [1, 0]]\<rparr>
          [\<lparr>ncols = 2, rows = [[9/10, 1/10], [1, 0]]\<rparr>] demo_Tinv) (spec_b_ub 2 2 2) y"
  then have len: "length y = 6"
    and rows: "list_all2 (\<lambda>r bi. dot r y \<le> bi)
      [[25/77, - 25/77, 0, 0, 0, 0], [0, 0, 0, 0, 0, 0],
       [25/77, - 25/77, 1, 0, 0, 0], [0, 0, 0, 1, 0, 0],
       [1, 0, 0, 0, 0, 0], [0, 1, 0, 0, 0, 0],
       [- 1, 0, 0, 0, 0, 0], [1, 0, 0, 0, - 1, 0],
       [0, - 1, 0, 0, 0, 0], [0, 1, 0, 0, 0, - 1]]
      [0, 0, 0, 0, 2, 2, 0, 0, 0, 0]"
    by (simp_all add: demo_A_ub demo_b_ub feasible_def)
  from len obtain y0 y1 y2 y3 y4 y5 where y: "y = [y0, y1, y2, y3, y4, y5]"
    by (auto simp: eval_nat_numeral length_Suc_conv)
  have "25/77 * y0 - 25/77 * y1 + y2 \<le> 0" "y3 \<le> 0" "0 \<le> y0" "y0 \<le> y4" "0 \<le> y1" "y1 \<le> y5"
    using rows by (simp_all add: y dot_def)
  then have "0 \<le> - y2 - y3 + 10 * y4 + 10 * y5" by linarith
  then show "dot (spec_c (\<lambda>i. 0) 2 10) [0, 0, 0, 0, 0, 0] \<le> dot (spec_c (\<lambda>i. 0) 2 10) y"
    by (simp add: demo_c y dot_def)
qed

text \<open>Every minimiser is degenerate: a feasible point whose objective value is not above
  that of the zero vector has both reward entries equal to zero.\<close>

lemma demo_minimisers_degenerate:
  assumes feas: "feasible (spec_A_ub 2 2 \<lparr>ncols = 2, rows = [[2/5, 3/5], [1, 0]]\<rparr>
          [\<lparr>ncols = 2, rows = [[9/10, 1/10], [1, 0]]\<rparr>] demo_Tinv) (spec_b_ub 2 2 2) y"
    and opt: "dot (spec_c (\<lambda>i. 0) 2 10) y \<le> dot (spec_c (\<lambda>i. 0) 2 10) [0, 0, 0, 0, 0, 0]"
  shows "all_equal (take 2 y)"
proof -
  have len: "length y = 6"
    and rows: "list_all2 (\<lambda>r bi. dot r y \<le> bi)
      [[25/77, - 25/77, 0, 0, 0, 0], [0, 0, 0, 0, 0, 0],
       [25/77, - 25/77, 1, 0, 0, 0], [0, 0, 0, 1, 0, 0],
       [1, 0, 0, 0, 0, 0], [0, 1, 0, 0, 0, 0],
       [- 1, 0, 0, 0, 0, 0], [1, 0, 0, 0, - 1, 0],
       [0, - 1, 0, 0, 0, 0], [0, 1, 0, 0, 0, - 1]]
      [0, 0, 0, 0, 2, 2, 0, 0, 0, 0]"
    using feas by (simp_all add: demo_A_ub demo_b_ub feasible_def)
  from len obtain y0 y1 y2 y3 y4 y5 where y: "y = [y0, y1, y2, y3, y4, y5]"
    by (auto simp: eval_nat_numeral length_Suc_conv)
  have "25/77 * y0 - 25/77 * y1 + y2 \<le> 0" "y3 \<le> 0" "0 \<le> y0" "y0 \<le> y4" "0 \<le> y1" "y1 \<le> y5"
    using rows by (simp_all add: y dot_def)
  moreover have "- y2 - y3 + 10 * y4 + 10 * y5 \<le> 0"
    using opt by (simp add: demo_c y dot_def)
  ultimately have "y0 = 0" "y1 = 0" by linarith+
  then show ?thesis by (simp add: y all_equal_def)
qed





subsection \<open>Inputs and allocation\<close>






lemma triple_weaken: "triple base m Q \<Longrightarrow> (\<And>v. Q v \<Longrightarrow> R v) \<Longrightarrow> triple base m R"
  by (auto simp: triple_def)



































end
